theory Spec2Isabelle
  imports Main "HOL-Library.Sublist"
begin

section \<open>Text files, lines and the line scanner\<close>

text \<open>
  A file's content is a byte string. \<open>nl\<close> is the newline byte and \<open>cr\<close> the carriage
  return.
\<close>

abbreviation nl :: char where
  "nl \<equiv> CHR 0x0A"

abbreviation cr :: char where
  "cr \<equiv> CHR 0x0D"

text \<open>
  \<open>splitLines\<close> is the plain notion of "the lines of a file": the content cut at every
  newline; an unterminated last segment is a line when it is not empty.
\<close>

fun splitLines :: "string \<Rightarrow> string list" where
  "splitLines [] = []"
| "splitLines (c # cs) =
     (if c = nl then [] # splitLines cs
      else (case splitLines cs of [] \<Rightarrow> [[c]] | l # ls \<Rightarrow> (c # l) # ls))"

text \<open>\<open>unlines ls\<close> writes every line followed by one newline.\<close>

definition unlines :: "string list \<Rightarrow> string" where
  "unlines ls = concat (map (\<lambda>l. l @ [nl]) ls)"

text \<open>
  Go's \<open>bufio.Scanner\<close> with the default split function \<open>ScanLines\<close>, as
  \<open>isLineInFile\<close> and \<open>removeLineFromFile\<close> use it: each line is returned without its
  newline and without one trailing carriage return (\<open>dropCR\<close>); a line of
  \<open>MaxScanTokenSize\<close> bytes or more makes \<open>Scan\<close> return false (the scanner's error is
  never inspected by the callers), so scanning ends silently before that line.
\<close>

definition MaxScanTokenSize :: nat where
  "MaxScanTokenSize = 65536"

definition dropCR :: "string \<Rightarrow> string" where
  "dropCR data = (if data \<noteq> [] \<and> last data = cr then butlast data else data)"

definition scanLines :: "string \<Rightarrow> string list" where
  "scanLines content =
     map dropCR (takeWhile (\<lambda>l. length l < MaxScanTokenSize) (splitLines content))"

text \<open>Go's \<open>strings.Contains(s, substr)\<close>: \<open>substr\<close> occurs in \<open>s\<close> as a contiguous run.\<close>

fun Contains :: "string \<Rightarrow> string \<Rightarrow> bool" where
  "Contains [] substr = (substr = [])"
| "Contains (c # s) substr = (prefix substr (c # s) \<or> Contains s substr)"

section \<open>Errors\<close>

record NetIf =
  Name :: string
  IP :: "nat list"

datatype error =
    osError string
  | execError string
  | shelloutError error string "string list"
  | noSuchRouteError
  | netIfRouteCreateError error NetIf
  | routeCreateError error string string string
  | failedToParseOtherHosts string
  | ensureLineError error

section \<open>The filesystem port\<close>

text \<open>
  The filesystem is a finite map from paths to contents; no operation on it fails except
  opening a path that has no file.
\<close>

type_synonym fs = "string \<rightharpoonup> string"

text \<open>
  Modelled from the spec: \<open>OS.CreateIfMissing\<close> (package \<open>pkg/util/os\<close> is missing).
  "Create the file if missing (no-op if present)".
\<close>

definition CreateIfMissing :: "string \<Rightarrow> fs \<Rightarrow> error option \<times> fs" where
  "CreateIfMissing path fs =
     (case fs path of None \<Rightarrow> (None, fs(path \<mapsto> [])) | Some _ \<Rightarrow> (None, fs))"

text \<open>
  Modelled from the spec: \<open>OS.Open\<close> and \<open>OS.AppendFile\<close> (package \<open>pkg/util/os\<close> is
  missing). Both open an existing file and fail on a missing one; the handle is
  represented by the content it reads.
\<close>

definition OS_Open :: "string \<Rightarrow> fs \<Rightarrow> error + string" where
  "OS_Open path fs =
     (case fs path of None \<Rightarrow> Inl (osError ''no such file or directory'') | Some content \<Rightarrow> Inr content)"

definition AppendFile :: "string \<Rightarrow> fs \<Rightarrow> error + string" where
  "AppendFile path fs =
     (case fs path of None \<Rightarrow> Inl (osError ''no such file or directory'') | Some content \<Rightarrow> Inr content)"

text \<open>
  \<open>io.Copy(file, buf)\<close> after \<open>Seek(0)\<close> overwrites the first bytes of the file with the
  buffer and returns the number of bytes written; \<open>Truncate(n)\<close> cuts the file to \<open>n\<close>
  bytes.
\<close>

definition Copy_at_start :: "string \<Rightarrow> string \<Rightarrow> string \<times> nat" where
  "Copy_at_start content buf = (buf @ drop (length buf) content, length buf)"

definition Truncate :: "string \<Rightarrow> nat \<Rightarrow> string" where
  "Truncate content n = take n content"

section \<open>The lease/line file reconciler (agent/helpers.go)\<close>

text \<open>The scanning loop of \<open>isLineInFile\<close>: it returns at the first line that contains the token.\<close>

fun isLineInFile_scan :: "string list \<Rightarrow> string \<Rightarrow> bool" where
  "isLineInFile_scan [] token = False"
| "isLineInFile_scan (line # rest) token =
     (if Contains line token then True else isLineInFile_scan rest token)"

definition isLineInFile :: "string \<Rightarrow> string \<Rightarrow> fs \<Rightarrow> error + bool" where
  "isLineInFile path token fs =
     (case OS_Open path fs of
        Inl err \<Rightarrow> Inl err
      | Inr content \<Rightarrow> Inr (isLineInFile_scan (scanLines content) token))"

definition appendLineToFile :: "string \<Rightarrow> string \<Rightarrow> fs \<Rightarrow> error option \<times> fs" where
  "appendLineToFile path token fs =
     (case AppendFile path fs of
        Inl err \<Rightarrow> (Some err, fs)
      | Inr content \<Rightarrow> (None, fs(path \<mapsto> content @ (token @ [nl]))))"

text \<open>
  The scanning loop of \<open>removeLineFromFile\<close>: every scanned line different from the token
  is written to the buffer, followed by a newline.
\<close>

fun removeLine_scan :: "string list \<Rightarrow> string \<Rightarrow> string \<Rightarrow> string" where
  "removeLine_scan [] token buf = buf"
| "removeLine_scan (line # rest) token buf =
     (if line \<noteq> token then removeLine_scan rest token (buf @ line @ [nl])
      else removeLine_scan rest token buf)"

definition removeLineFromFile :: "string \<Rightarrow> string \<Rightarrow> fs \<Rightarrow> error option \<times> fs" where
  "removeLineFromFile path token fs =
     (case OS_Open path fs of
        Inl err \<Rightarrow> (Some err, fs)
      | Inr content \<Rightarrow>
          (let buf = removeLine_scan (scanLines content) token [];
               (written, nw) = Copy_at_start content buf
           in (None, fs(path \<mapsto> Truncate written nw))))"

text \<open>The two operations that the \<open>switch\<close> of \<open>ensureLine\<close> distinguishes.\<close>

datatype leaseOp = leaseAdd | leaseRemove

definition ensureLine :: "string \<Rightarrow> string \<Rightarrow> leaseOp \<Rightarrow> fs \<Rightarrow> error option \<times> fs" where
  "ensureLine path token op fs =
     (case CreateIfMissing path fs of
        (Some err, fs1) \<Rightarrow> (Some (ensureLineError err), fs1)
      | (None, fs1) \<Rightarrow>
          (case isLineInFile path token fs1 of
             Inl err \<Rightarrow> (Some (ensureLineError err), fs1)
           | Inr lineInFile \<Rightarrow>
               (case op of
                  leaseAdd \<Rightarrow>
                    (if \<not> lineInFile then
                       (case appendLineToFile path token fs1 of
                          (Some err, fs2) \<Rightarrow> (Some (ensureLineError err), fs2)
                        | (None, fs2) \<Rightarrow> (None, fs2))
                     else (None, fs1))
                | leaseRemove \<Rightarrow>
                    (if lineInFile then
                       (case removeLineFromFile path token fs1 of
                          (Some err, fs2) \<Rightarrow> (Some (ensureLineError err), fs2)
                        | (None, fs2) \<Rightarrow> (None, fs2))
                     else (None, fs1)))))"

text \<open>
  The three locks of the helper (\<open>ensureLineMutex\<close> and the two route mutexes) are each
  taken at entry and released at every exit; the functions here describe one call running
  alone, so the locks do not appear.
\<close>

section \<open>Vocabulary of the properties about files\<close>

text \<open>The content found at a path; a missing file reads as empty.\<close>

definition fileContent :: "fs \<Rightarrow> string \<Rightarrow> string" where
  "fileContent fs path = (case fs path of None \<Rightarrow> [] | Some content \<Rightarrow> content)"

text \<open>The number of lines of a content that are exactly equal to the token.\<close>

definition countLines :: "string \<Rightarrow> string \<Rightarrow> nat" where
  "countLines token content = length (filter (\<lambda>l. l = token) (splitLines content))"

text \<open>A content without its trailing newlines.\<close>

definition stripTrailingNewlines :: "string \<Rightarrow> string" where
  "stripTrailingNewlines content = rev (dropWhile (\<lambda>c. c = nl) (rev content))"

section \<open>The shell port\<close>

text \<open>
  \<open>Executor.Exec(cmd, args)\<close> returns the output bytes and an error. Its behaviour on the
  machine is a parameter: an executor maps a command, its arguments and the state of the
  kernel to the output, the error (if any) and the next state of the kernel. The port
  itself records every invocation, in order.
\<close>

type_synonym call = "string \<times> string list"

type_synonym 'k executor = "string \<Rightarrow> string list \<Rightarrow> 'k \<Rightarrow> (string \<times> error option) \<times> 'k"

record 'k shell =
  kernel :: 'k
  calls :: "call list"

definition Exec ::
  "'k executor \<Rightarrow> string \<Rightarrow> string list \<Rightarrow> 'k shell \<Rightarrow> (string \<times> error option) \<times> 'k shell" where
  "Exec ex cmd args sh =
     (case ex cmd args (kernel sh) of
        (r, k') \<Rightarrow> (r, \<lparr>kernel = k', calls = calls sh @ [(cmd, args)]\<rparr>))"

text \<open>\<open>fmt.Sprintf("%d", n)\<close> for a number that is not negative.\<close>

fun Sprintf_d :: "nat \<Rightarrow> string" where
  "Sprintf_d n =
     (if n < 10 then [''0123456789'' ! n]
      else Sprintf_d (n div 10) @ [''0123456789'' ! (n mod 10)])"

declare Sprintf_d.simps [simp del]

text \<open>
  The functions of Go's package \<open>net\<close> that the reconciler calls are parameters:
  \<open>ParseCIDR\<close> maps a text to the network address and the prefix length
  (\<open>Mask.Size()\<close>) of the parsed network, or fails; \<open>IP_String\<close> is \<open>IP.String()\<close>.
\<close>

record netlib =
  ParseCIDR :: "string \<Rightarrow> (nat list \<times> nat) option"
  IP_String :: "nat list \<Rightarrow> string"

record Host =
  Ip :: string
  RomanaIp :: string

text \<open>
  The parts of \<open>Helper\<close> and of its \<open>Agent\<close> that the functions below read:
  the executor, \<open>networkConfig.EndpointNetmaskSize()\<close>, \<open>networkConfig.romanaGW\<close>,
  \<open>networkConfig.otherHosts\<close> and \<open>waitForIfaceTry\<close>.
\<close>

record 'k Helper =
  Executor :: "'k executor"
  EndpointNetmaskSize :: nat
  romanaGW :: "nat list"
  otherHosts :: "Host list"
  waitForIfaceTry :: int

section \<open>The local route reconciler (agent/helpers.go)\<close>

definition isRouteExist ::
  "netlib \<Rightarrow> 'k Helper \<Rightarrow> nat list \<Rightarrow> string \<Rightarrow> 'k shell \<Rightarrow> error option \<times> 'k shell" where
  "isRouteExist net h ip netmask sh =
     (let cmd = ''/sbin/ip'';
          target = IP_String net ip @ ''/'' @ netmask;
          args = [''ro'', ''show'', target]
      in case Exec (Executor h) cmd args sh of
           ((out, Some err), sh') \<Rightarrow> (Some (shelloutError err cmd args), sh')
         | ((out, None), sh') \<Rightarrow>
             (if length out > 0 then (None, sh') else (Some noSuchRouteError, sh')))"

definition createRoute ::
  "netlib \<Rightarrow> 'k Helper \<Rightarrow> nat list \<Rightarrow> string \<Rightarrow> string \<Rightarrow> string \<Rightarrow> string list \<Rightarrow> 'k shell
     \<Rightarrow> error option \<times> 'k shell" where
  "createRoute net h ip netmask via dest extraArgs sh =
     (let cmd = ''/sbin/ip'';
          targetIP = IP_String net ip @ ''/'' @ netmask;
          args = [''ro'', ''add'', targetIP, via, dest] @ extraArgs
      in case Exec (Executor h) cmd args sh of
           ((out, Some err), sh') \<Rightarrow> (Some (shelloutError err cmd args), sh')
         | ((out, None), sh') \<Rightarrow> (None, sh'))"

definition ensureRouteToEndpoint ::
  "netlib \<Rightarrow> 'k Helper \<Rightarrow> NetIf \<Rightarrow> 'k shell \<Rightarrow> error option \<times> 'k shell" where
  "ensureRouteToEndpoint net h netif sh =
     (let mask = Sprintf_d (EndpointNetmaskSize h)
      in case isRouteExist net h (IP netif) mask sh of
           (Some err, sh1) \<Rightarrow>
             (let via = ''dev''; dest = Name netif
              in case createRoute net h (IP netif) mask via dest
                        [''src'', IP_String net (romanaGW h)] sh1 of
                   (Some err', sh2) \<Rightarrow> (Some (netIfRouteCreateError err' netif), sh2)
                 | (None, sh2) \<Rightarrow> (None, sh2))
         | (None, sh1) \<Rightarrow> (None, sh1))"

text \<open>
  The loop of \<open>ensureInterHostRoutes\<close> over \<open>otherHosts\<close>. The error wrapped by
  \<open>routeCreateError\<close> is \<open>err\<close>, the one of the existence check, as in the source.
\<close>

fun ensureInterHostRoutes_loop ::
  "netlib \<Rightarrow> 'k Helper \<Rightarrow> Host list \<Rightarrow> 'k shell \<Rightarrow> error option \<times> 'k shell" where
  "ensureInterHostRoutes_loop net h [] sh = (None, sh)"
| "ensureInterHostRoutes_loop net h (host # rest) sh =
     (case ParseCIDR net (RomanaIp host) of
        None \<Rightarrow> (Some (failedToParseOtherHosts (RomanaIp host)), sh)
      | Some (romanaCidrIP, romanaMaskInt) \<Rightarrow>
          (let romanaMask = Sprintf_d romanaMaskInt; dest = Ip host
           in case isRouteExist net h romanaCidrIP romanaMask sh of
                (Some err, sh1) \<Rightarrow>
                  (case createRoute net h romanaCidrIP romanaMask ''via'' dest [] sh1 of
                     (Some err2, sh2) \<Rightarrow>
                       (Some (routeCreateError err (IP_String net romanaCidrIP) romanaMask dest), sh2)
                   | (None, sh2) \<Rightarrow> ensureInterHostRoutes_loop net h rest sh2)
              | (None, sh1) \<Rightarrow> ensureInterHostRoutes_loop net h rest sh1))"

definition ensureInterHostRoutes ::
  "netlib \<Rightarrow> 'k Helper \<Rightarrow> 'k shell \<Rightarrow> error option \<times> 'k shell" where
  "ensureInterHostRoutes net h sh = ensureInterHostRoutes_loop net h (otherHosts h) sh"

text \<open>The errors that \<open>isRouteExist\<close> returns: a failed shell-out or the "no such route" sentinel.\<close>

fun is_query_error :: "error \<Rightarrow> bool" where
  "is_query_error noSuchRouteError = True"
| "is_query_error (shelloutError err cmd args) = True"
| "is_query_error _ = False"

section \<open>Waiting for an interface (agent/helpers.go)\<close>

text \<open>
  \<open>net.Interfaces()\<close> is a parameter: \<open>ifaces n\<close> is the list of interface names that the
  poll number \<open>n\<close> (counted from 0) sees; a failed call is an empty list, since the
  source only logs the failure and walks the nil list. The state counts the polls made
  and the seconds slept. The counter \<open>i\<close> is a Go \<open>int\<close>; it is an unbounded integer
  here, which agrees with the source as long as \<open>waitForIfaceTry\<close> is below the largest
  \<open>int\<close>.
\<close>

record wait_state =
  polls :: nat
  slept :: nat

function waitForIface_loop ::
  "(nat \<Rightarrow> string list) \<Rightarrow> int \<Rightarrow> string \<Rightarrow> int \<Rightarrow> wait_state \<Rightarrow> bool \<times> wait_state" where
  "waitForIface_loop ifaces tries expectedIface i st =
     (if i \<le> tries then
        (let ifaceList = ifaces (polls st);
             st1 = st\<lparr>polls := polls st + 1\<rparr>
         in if expectedIface \<in> set ifaceList then (True, st1)
            else waitForIface_loop ifaces tries expectedIface (i + 1)
                   (st1\<lparr>slept := slept st1 + 10\<rparr>))
      else (False, st))"
  by pat_completeness auto
termination
  by (relation "measure (\<lambda>(ifaces, tries, expectedIface, i, st). nat (tries + 1 - i))") auto

declare waitForIface_loop.simps [simp del]

definition waitForIface :: "'k Helper \<Rightarrow> (nat \<Rightarrow> string list) \<Rightarrow> string \<Rightarrow> bool \<times> wait_state" where
  "waitForIface h ifaces expectedIface =
     waitForIface_loop ifaces (waitForIfaceTry h) expectedIface 0 \<lparr>polls = 0, slept = 0\<rparr>"

section \<open>The watch loop (cmd/romana_route_publisher/main.go)\<close>

text \<open>
  The channel as its only receiver sees it: the snapshots still to be delivered, and
  whether the sender closes the channel after them. A receive takes the next snapshot;
  on a closed and drained channel it returns the zero value at once, every time; on an
  open and drained channel it blocks for ever.
\<close>

record 'b BlockList =
  Blocks :: "'b list"

record 'b chan =
  queued :: "'b BlockList list"
  closed :: bool

definition receive :: "'b chan \<Rightarrow> ('b BlockList \<times> 'b chan) option" where
  "receive ch =
     (case queued ch of
        x # xs \<Rightarrow> Some (x, ch\<lparr>queued := xs\<rparr>)
      | [] \<Rightarrow> (if closed ch then Some (\<lparr>Blocks = []\<rparr>, ch) else None))"

text \<open>
  The loop \<open>for { select { case blocks := <-blocksChannel: createRouteToBlocks(...) } }\<close>
  of \<open>main\<close>. \<open>createRouteToBlocks\<close> lives in another file of the command; it is the
  parameter \<open>crb\<close>, acting on a state of the publisher. The loop has no exit: the
  result \<open>None\<close> says that it does not return.
\<close>

partial_function (option) watch_loop ::
  "('b list \<Rightarrow> 's \<Rightarrow> 's) \<Rightarrow> 'b chan \<Rightarrow> 's \<Rightarrow> 's option" where
  "watch_loop crb ch s =
     (case receive ch of
        None \<Rightarrow> None
      | Some (blocks, ch') \<Rightarrow> watch_loop crb ch' (crb (Blocks blocks) s))"

text \<open>The state of the publisher after at most \<open>n\<close> iterations of the same loop.\<close>

fun watch_loop_steps ::
  "nat \<Rightarrow> ('b list \<Rightarrow> 's \<Rightarrow> 's) \<Rightarrow> 'b chan \<Rightarrow> 's \<Rightarrow> 's" where
  "watch_loop_steps 0 crb ch s = s"
| "watch_loop_steps (Suc n) crb ch s =
     (case receive ch of
        None \<Rightarrow> s
      | Some (blocks, ch') \<Rightarrow> watch_loop_steps n crb ch' (crb (Blocks blocks) s))"

section \<open>Test doubles used by the examples\<close>

text \<open>
  A deterministic kernel route table: the state is the list of destinations that have a
  route. \<open>ip ro show T\<close> prints a line exactly when \<open>T\<close> has a route; \<open>ip ro add T ...\<close>
  adds \<open>T\<close>, and fails when \<open>T\<close> already has a route; anything else fails.
\<close>

fun route_table_exec :: "string list executor" where
  "route_table_exec cmd (a # b # target # rest) table =
     (if cmd = ''/sbin/ip'' \<and> a = ''ro'' \<and> b = ''show'' \<and> rest = [] then
        ((if target \<in> set table then target @ '' scope link'' @ [nl] else [], None), table)
      else if cmd = ''/sbin/ip'' \<and> a = ''ro'' \<and> b = ''add'' then
        (if target \<in> set table then (([], Some (execError ''exit status 2'')), table)
         else (([], None), target # table))
      else (([], Some (execError ''exit status 1'')), table))"
| "route_table_exec cmd args table = (([], Some (execError ''exit status 1'')), table)"

text \<open>An executor on which every command fails.\<close>

definition failing_exec :: "unit executor" where
  "failing_exec cmd args k = (([], Some (execError ''exec: not found'')), k)"

text \<open>
  Dotted decimal for the bytes of an IPv4 address, and the results of \<open>net.ParseCIDR\<close> on
  the texts of the examples (it fails on every other text).
\<close>

fun dotted :: "nat list \<Rightarrow> string" where
  "dotted [] = []"
| "dotted [b] = Sprintf_d b"
| "dotted (b # bs) = Sprintf_d b @ ''.'' @ dotted bs"

definition example_net :: netlib where
  "example_net =
     \<lparr>ParseCIDR = map_of
        [(''10.1.0.0/16'', ([10, 1, 0, 0], 16)),
         (''10.2.0.0/16'', ([10, 2, 0, 0], 16))],
      IP_String = dotted\<rparr>"

text \<open>Helpers over the route table double and over the failing executor.\<close>

definition example_helper :: "Host list \<Rightarrow> string list Helper" where
  "example_helper hosts =
     \<lparr>Executor = route_table_exec, EndpointNetmaskSize = 16, romanaGW = [10, 0, 0, 1],
      otherHosts = hosts, waitForIfaceTry = 1\<rparr>"

definition failing_helper :: "Host list \<Rightarrow> unit Helper" where
  "failing_helper hosts =
     \<lparr>Executor = failing_exec, EndpointNetmaskSize = 16, romanaGW = [10, 0, 0, 1],
      otherHosts = hosts, waitForIfaceTry = 1\<rparr>"

section \<open>Basic facts about lines\<close>

lemma splitLines_line_cons:
  "nl \<notin> set l \<Longrightarrow> splitLines (l @ nl # rest) = l # splitLines rest"
  by (induction l) auto

lemma splitLines_unlines:
  "\<forall>l \<in> set ls. nl \<notin> set l \<Longrightarrow> splitLines (unlines ls) = ls"
  unfolding unlines_def
  by (induction ls) (auto simp: splitLines_line_cons)

lemma splitLines_nonempty: "c \<noteq> [] \<Longrightarrow> splitLines c \<noteq> []"
  by (cases c) (auto split: list.splits)

lemma splitLines_no_nl: "l \<in> set (splitLines c) \<Longrightarrow> nl \<notin> set l"
  by (induction c arbitrary: l) (auto split: if_splits list.splits)

lemma splitLines_single: "nl \<notin> set l \<Longrightarrow> l \<noteq> [] \<Longrightarrow> splitLines l = [l]"
proof (induction l)
  case Nil
  then show ?case by simp
next
  case (Cons a l)
  then show ?case by (cases "l = []") auto
qed

lemma splitLines_append:
  "p = [] \<or> last p = nl \<Longrightarrow> splitLines (p @ d) = splitLines p @ splitLines d"
proof (induction p)
  case Nil
  then show ?case by simp
next
  case (Cons x p)
  show ?case
  proof (cases "x = nl")
    case True
    have "p = [] \<or> last p = nl" using Cons.prems by (auto split: if_splits)
    then show ?thesis using True Cons.IH by simp
  next
    case False
    then have pne: "p \<noteq> []" using Cons.prems by auto
    then have "last p = nl" using Cons.prems by auto
    then have IH: "splitLines (p @ d) = splitLines p @ splitLines d" using Cons.IH by simp
    obtain l ls where "splitLines p = l # ls"
      using splitLines_nonempty[OF pne] by (cases "splitLines p") auto
    then show ?thesis using False IH by simp
  qed
qed

lemma split_last_line:
  "\<exists>p r. c = p @ r \<and> (p = [] \<or> last p = nl) \<and> nl \<notin> set r"
proof (induction c rule: rev_induct)
  case Nil
  then show ?case by simp
next
  case (snoc x xs)
  then obtain p r where pr: "xs = p @ r" "p = [] \<or> last p = nl" "nl \<notin> set r" by blast
  show ?case
  proof (cases "x = nl")
    case True
    have "xs @ [x] = (xs @ [x]) @ []" by simp
    moreover have "last (xs @ [x]) = nl" using True by simp
    ultimately show ?thesis by (metis empty_iff empty_set)
  next
    case False
    have "xs @ [x] = p @ (r @ [x])" using pr by simp
    moreover have "nl \<notin> set (r @ [x])" using pr False by simp
    ultimately show ?thesis using pr(2) by blast
  qed
qed

lemma dropCR_no_nl: "nl \<notin> set l \<Longrightarrow> nl \<notin> set (dropCR l)"
  by (auto simp: dropCR_def dest: in_set_butlastD)

lemma scanLines_no_nl: "l \<in> set (scanLines c) \<Longrightarrow> nl \<notin> set l"
  unfolding scanLines_def
  by (auto dest!: set_takeWhileD splitLines_no_nl dropCR_no_nl)

lemma isLineInFile_scan_iff: "isLineInFile_scan ls token = (\<exists>l \<in> set ls. Contains l token)"
  by (induction ls) auto

lemma removeLine_scan_eq:
  "removeLine_scan ls token buf = buf @ unlines (filter (\<lambda>l. l \<noteq> token) ls)"
  by (induction ls arbitrary: buf) (auto simp: unlines_def)

lemma Contains_self: "Contains s s"
  by (cases s) auto

lemma Contains_sublist: "Contains s t = sublist t s"
  by (induction s) (auto simp: sublist_Cons_right)

lemma scanLines_unlines:
  "\<forall>l \<in> set ls. nl \<notin> set l \<and> length l < MaxScanTokenSize \<and> dropCR l = l \<Longrightarrow> scanLines (unlines ls) = ls"
proof -
  assume a: "\<forall>l \<in> set ls. nl \<notin> set l \<and> length l < MaxScanTokenSize \<and> dropCR l = l"
  then have h1: "splitLines (unlines ls) = ls" by (simp add: splitLines_unlines)
  have h2: "takeWhile (\<lambda>l. length l < MaxScanTokenSize) ls = ls"
    using a by (simp add: takeWhile_eq_all_conv)
  have h3: "map dropCR ls = ls" using a by (simp add: map_idI)
  show ?thesis by (simp only: scanLines_def h1 h2 h3)
qed

lemma ensureLine_add_existing:
  "fs path = Some c \<Longrightarrow>
   ensureLine path token leaseAdd fs =
     (None, if isLineInFile_scan (scanLines c) token then fs else fs(path \<mapsto> c @ token @ [nl]))"
  by (simp add: ensureLine_def CreateIfMissing_def isLineInFile_def OS_Open_def
      appendLineToFile_def AppendFile_def)

lemma ensureLine_add_missing:
  "fs path = None \<Longrightarrow>
   ensureLine path token leaseAdd fs = (None, fs(path \<mapsto> token @ [nl]))"
  by (simp add: ensureLine_def CreateIfMissing_def isLineInFile_def OS_Open_def
      appendLineToFile_def AppendFile_def scanLines_def)

lemma ensureLine_remove_existing:
  "fs path = Some c \<Longrightarrow>
   ensureLine path token leaseRemove fs =
     (None, if isLineInFile_scan (scanLines c) token
            then fs(path \<mapsto> unlines (filter (\<lambda>l. l \<noteq> token) (scanLines c))) else fs)"
  by (simp add: ensureLine_def CreateIfMissing_def isLineInFile_def OS_Open_def
      removeLineFromFile_def Copy_at_start_def Truncate_def removeLine_scan_eq)

lemma ensureLine_remove_missing:
  "fs path = None \<Longrightarrow>
   ensureLine path token leaseRemove fs = (None, fs(path \<mapsto> []))"
  by (simp add: ensureLine_def CreateIfMissing_def isLineInFile_def OS_Open_def scanLines_def)

lemma splitLines_join:
  assumes "c \<noteq> []" "last c \<noteq> nl" "nl \<notin> set token"
  shows "splitLines (c @ token @ [nl]) = butlast (splitLines c) @ [last (splitLines c) @ token]"
proof -
  obtain p r where pr: "c = p @ r" "p = [] \<or> last p = nl" "nl \<notin> set r"
    using split_last_line by blast
  have rne: "r \<noteq> []" using assms(1,2) pr by (cases "r = []") auto
  have a: "splitLines c = splitLines p @ [r]"
    using pr rne by (simp add: splitLines_append splitLines_single)
  have "splitLines (c @ token @ [nl]) = splitLines p @ splitLines ((r @ token) @ nl # [])"
    using pr by (simp add: splitLines_append)
  also have "splitLines ((r @ token) @ nl # []) = [r @ token]"
    using pr(3) assms(3) by (subst splitLines_line_cons) auto
  finally show ?thesis using a by simp
qed

lemma remove_leaves_no_token:
  "token \<notin> set (splitLines (unlines (filter (\<lambda>l. l \<noteq> token) (scanLines c))))"
proof -
  have "\<forall>l \<in> set (filter (\<lambda>l. l \<noteq> token) (scanLines c)). nl \<notin> set l"
    by (auto dest: scanLines_no_nl)
  then have "splitLines (unlines (filter (\<lambda>l. l \<noteq> token) (scanLines c))) = filter (\<lambda>l. l \<noteq> token) (scanLines c)"
    by (rule splitLines_unlines)
  then show ?thesis by simp
qed


lemma scanLines_Nil: "scanLines [] = []"
  by (simp add: scanLines_def)

lemma ensureLine_add:
  "ensureLine path token leaseAdd fs =
     (None, if isLineInFile_scan (scanLines (fileContent fs path)) token then fs
            else fs(path \<mapsto> fileContent fs path @ token @ [nl]))"
  by (cases "fs path")
     (simp_all add: fileContent_def ensureLine_add_existing ensureLine_add_missing scanLines_Nil)

lemma ensureLine_remove:
  "ensureLine path token leaseRemove fs =
     (None, if isLineInFile_scan (scanLines (fileContent fs path)) token
            then fs(path \<mapsto> unlines (filter (\<lambda>l. l \<noteq> token) (scanLines (fileContent fs path))))
            else fs(path \<mapsto> fileContent fs path))"
  by (cases "fs path")
     (simp_all add: fileContent_def ensureLine_remove_existing ensureLine_remove_missing scanLines_Nil fun_upd_idem)

lemma countLines_removed:
  "countLines token (unlines (filter (\<lambda>l. l \<noteq> token) (scanLines c))) = 0"
  using remove_leaves_no_token[of token c]
  by (auto simp: countLines_def filter_empty_conv)

lemma absent_scan_absent_lines:
  assumes "\<not> isLineInFile_scan (scanLines c) token"
    and "dropCR token = token"
    and "\<forall>l \<in> set (splitLines c). length l < MaxScanTokenSize"
  shows "token \<notin> set (splitLines c)"
proof
  assume t: "token \<in> set (splitLines c)"
  have h: "takeWhile (\<lambda>l. length l < MaxScanTokenSize) (splitLines c) = splitLines c"
    using assms(3) by (simp add: takeWhile_eq_all_conv)
  have "scanLines c = map dropCR (splitLines c)" by (simp only: scanLines_def h)
  then have "dropCR token \<in> set (scanLines c)" using t by simp
  then have "token \<in> set (scanLines c)" using assms(2) by simp
  then show False using assms(1) Contains_self by (auto simp: isLineInFile_scan_iff)
qed

lemma countLines_append_token:
  assumes "nl \<notin> set token" "token \<notin> set (splitLines c)"
  shows "countLines token (c @ token @ [nl]) \<le> 1"
proof -
  obtain p r where pr: "c = p @ r" "p = [] \<or> last p = nl" "nl \<notin> set r"
    using split_last_line by blast
  have "splitLines (c @ token @ [nl]) = splitLines p @ splitLines ((r @ token) @ nl # [])"
    using pr by (simp add: splitLines_append)
  also have "splitLines ((r @ token) @ nl # []) = [r @ token]"
    using pr(3) assms(1) by (subst splitLines_line_cons) auto
  finally have a: "splitLines (c @ token @ [nl]) = splitLines p @ [r @ token]" .
  have "splitLines c = splitLines p @ splitLines r"
    using pr by (simp add: splitLines_append)
  then have "token \<notin> set (splitLines p)" using assms(2) by simp
  then have "filter (\<lambda>l. l = token) (splitLines p) = []" by (auto simp: filter_empty_conv)
  then show ?thesis by (simp add: countLines_def a)
qed

lemma ensureLine_preserves_at_most_one:
  assumes "nl \<notin> set token" "dropCR token = token"
    and "\<forall>l \<in> set (splitLines (fileContent fs path)). length l < MaxScanTokenSize"
    and "countLines token (fileContent fs path) \<le> 1"
  shows "fst (ensureLine path token op fs) = None \<and>
         countLines token (fileContent (snd (ensureLine path token op fs)) path) \<le> 1"
proof (cases op)
  case leaseAdd
  show ?thesis
  proof (cases "isLineInFile_scan (scanLines (fileContent fs path)) token")
    case True
    then show ?thesis using leaseAdd assms(4) by (simp add: ensureLine_add)
  next
    case False
    then have "token \<notin> set (splitLines (fileContent fs path))"
      using absent_scan_absent_lines assms(2,3) by blast
    then have "countLines token (fileContent fs path @ token @ [nl]) \<le> 1"
      using countLines_append_token assms(1) by blast
    then show ?thesis using leaseAdd False by (simp add: ensureLine_add fileContent_def)
  qed
next
  case leaseRemove
  show ?thesis
  proof (cases "isLineInFile_scan (scanLines (fileContent fs path)) token")
    case True
    then show ?thesis using leaseRemove
      by (simp add: ensureLine_remove fileContent_def countLines_removed)
  next
    case False
    then show ?thesis using leaseRemove assms(4)
      by (simp add: ensureLine_remove fileContent_def split: option.splits)
  qed
qed

lemma unlines_snoc: "unlines (ls @ [l]) = unlines ls @ l @ [nl]"
  by (simp add: unlines_def)

lemma add_twice_exactly_one:
  assumes c: "fileContent fs path = unlines ls"
    and wf: "\<forall>l \<in> set (token # ls). nl \<notin> set l \<and> length l < MaxScanTokenSize \<and> dropCR l = l"
    and sub: "\<forall>l \<in> set ls. Contains l token \<longrightarrow> l = token"
    and cnt: "length (filter (\<lambda>l. l = token) ls) \<le> 1"
  shows "fst (ensureLine path token leaseAdd fs) = None \<and>
         ensureLine path token leaseAdd (snd (ensureLine path token leaseAdd fs)) =
           (None, snd (ensureLine path token leaseAdd fs)) \<and>
         countLines token (fileContent (snd (ensureLine path token leaseAdd fs)) path) = 1"
proof -
  have wfls: "\<forall>l \<in> set ls. nl \<notin> set l \<and> length l < MaxScanTokenSize \<and> dropCR l = l"
    using wf by simp
  have scan: "scanLines (unlines ls) = ls" using wfls by (rule scanLines_unlines)
  have split: "splitLines (unlines ls) = ls" using wfls by (simp add: splitLines_unlines)
  have present: "isLineInFile_scan ls token = (token \<in> set ls)"
    using sub Contains_self by (auto simp: isLineInFile_scan_iff)
  show ?thesis
  proof (cases "token \<in> set ls")
    case True
    then have "filter (\<lambda>l. l = token) ls \<noteq> []" by (auto simp: filter_empty_conv)
    then have "length (filter (\<lambda>l. l = token) ls) = 1"
      using cnt by (cases "filter (\<lambda>l. l = token) ls") auto
    then show ?thesis using True c scan split present
      by (simp add: ensureLine_add countLines_def)
  next
    case False
    let ?ls' = "ls @ [token]"
    have wf': "\<forall>l \<in> set ?ls'. nl \<notin> set l \<and> length l < MaxScanTokenSize \<and> dropCR l = l"
      using wf by simp
    have scan': "scanLines (unlines ?ls') = ?ls'" using wf' by (rule scanLines_unlines)
    have split': "splitLines (unlines ?ls') = ?ls'" using wf' by (simp add: splitLines_unlines)
    have fs1: "ensureLine path token leaseAdd fs = (None, fs(path \<mapsto> unlines ?ls'))"
      using False c scan present by (simp add: ensureLine_add unlines_snoc)
    have c1: "fileContent (fs(path \<mapsto> unlines ?ls')) path = unlines ?ls'"
      by (simp add: fileContent_def)
    have p1: "isLineInFile_scan ?ls' token"
      using Contains_self by (auto simp: isLineInFile_scan_iff)
    have "filter (\<lambda>l. l = token) ls = []" using False by (auto simp: filter_empty_conv)
    then have cnt1: "countLines token (unlines ?ls') = 1"
      by (simp add: countLines_def split')
    have second: "ensureLine path token leaseAdd (fs(path \<mapsto> unlines ?ls')) =
        (None, fs(path \<mapsto> unlines ?ls'))"
      by (simp add: ensureLine_add c1 scan' p1)
    show ?thesis
      unfolding fs1 using second cnt1 c1 by simp
  qed
qed

lemma add_then_remove:
  assumes c: "fs path = Some (unlines ls)"
    and wf: "\<forall>l \<in> set (token # ls). nl \<notin> set l \<and> length l < MaxScanTokenSize \<and> dropCR l = l"
    and absent: "\<forall>l \<in> set ls. \<not> Contains l token"
  shows "ensureLine path token leaseAdd fs = (None, fs(path \<mapsto> unlines ls @ token @ [nl])) \<and>
         ensureLine path token leaseRemove (snd (ensureLine path token leaseAdd fs)) = (None, fs)"
proof -
  have wfls: "\<forall>l \<in> set ls. nl \<notin> set l \<and> length l < MaxScanTokenSize \<and> dropCR l = l"
    using wf by simp
  have scan: "scanLines (unlines ls) = ls" using wfls by (rule scanLines_unlines)
  have np: "\<not> isLineInFile_scan ls token" using absent by (simp add: isLineInFile_scan_iff)
  let ?ls' = "ls @ [token]"
  have wf': "\<forall>l \<in> set ?ls'. nl \<notin> set l \<and> length l < MaxScanTokenSize \<and> dropCR l = l"
    using wf by simp
  have scan': "scanLines (unlines ?ls') = ?ls'" using wf' by (rule scanLines_unlines)
  have fc: "fileContent fs path = unlines ls" using c by (simp add: fileContent_def)
  have fs1: "ensureLine path token leaseAdd fs = (None, fs(path \<mapsto> unlines ?ls'))"
    using fc scan np by (simp add: ensureLine_add unlines_snoc)
  have c1: "fileContent (fs(path \<mapsto> unlines ?ls')) path = unlines ?ls'"
    by (simp add: fileContent_def)
  have p1: "isLineInFile_scan ?ls' token"
    using Contains_self by (auto simp: isLineInFile_scan_iff)
  have "token \<notin> set ls" using absent Contains_self by auto
  then have flt: "filter (\<lambda>l. l \<noteq> token) ls = ls" by (auto simp: filter_id_conv)
  have same: "fs(path \<mapsto> unlines ls) = fs" using c by (simp add: fun_upd_idem)
  have second: "ensureLine path token leaseRemove (fs(path \<mapsto> unlines ?ls')) = (None, fs)"
    by (simp add: ensureLine_remove c1 scan' p1 flt same)
  show ?thesis
    unfolding fs1 using second by (simp add: unlines_snoc)
qed

section \<open>Claims about the lease/line file reconciler\<close>

text \<open>
  Claim C3 says that the presence check of \<open>ensureLine\<close> reports the token present exactly
  when a whole line of the file equals the token. \<open>isLineInFile\<close> tests
  \<open>strings.Contains(line, token)\<close> instead, while the sibling \<open>removeLineFromFile\<close> compares
  with \<open>line != token\<close>. On the file with the single line \<open>10.0.0.10\<close> and the token
  \<open>10.0.0.1\<close> the check answers true although no line equals the token, and
  \<open>ensureLine\<close> with \<open>leaseAdd\<close> then leaves the file without the token's line.
\<close>

theorem isLineInFile_matches_substring:
  "isLineInFile ''/f'' ''10.0.0.1'' [''/f'' \<mapsto> ''10.0.0.10'' @ [nl]] = Inr True
   \<and> ''10.0.0.1'' \<notin> set (splitLines (''10.0.0.10'' @ [nl]))
   \<and> ensureLine ''/f'' ''10.0.0.1'' leaseAdd [''/f'' \<mapsto> ''10.0.0.10'' @ [nl]]
       = (None, [''/f'' \<mapsto> ''10.0.0.10'' @ [nl]])"
  by (simp add: ensureLine_def CreateIfMissing_def isLineInFile_def OS_Open_def scanLines_def
      MaxScanTokenSize_def dropCR_def)

text \<open>
  Claim C10: \<open>ensureLine\<close> with \<open>leaseAdd\<close> succeeds, touches no other file, and keeps
  every byte that the file had (the old content is a prefix of the new one); when the
  presence check finds the token absent, the new content is the old one followed by the
  token and one newline. If the old content is not empty and does not end in a newline,
  the token (without newline) joins the previous last line.
\<close>

theorem ensureLine_add_frame:
  "fst (ensureLine path token leaseAdd fs) = None
   \<and> (\<forall>p. p \<noteq> path \<longrightarrow> snd (ensureLine path token leaseAdd fs) p = fs p)
   \<and> prefix (fileContent fs path) (fileContent (snd (ensureLine path token leaseAdd fs)) path)
   \<and> (\<not> isLineInFile_scan (scanLines (fileContent fs path)) token \<longrightarrow>
        snd (ensureLine path token leaseAdd fs) path = Some (fileContent fs path @ token @ [nl]))
   \<and> (fileContent fs path \<noteq> [] \<and> last (fileContent fs path) \<noteq> nl \<and> nl \<notin> set token \<longrightarrow>
        splitLines (fileContent fs path @ token @ [nl]) =
          butlast (splitLines (fileContent fs path)) @ [last (splitLines (fileContent fs path)) @ token])"
proof -
  have "fileContent fs path \<noteq> [] \<and> last (fileContent fs path) \<noteq> nl \<and> nl \<notin> set token \<longrightarrow>
        splitLines (fileContent fs path @ token @ [nl]) =
          butlast (splitLines (fileContent fs path)) @ [last (splitLines (fileContent fs path)) @ token]"
    using splitLines_join by blast
  then show ?thesis
    by (simp add: ensureLine_add fileContent_def)
qed

theorem ensureLine_add_frame_witness:
  "\<not> isLineInFile_scan (scanLines (fileContent [''/f'' \<mapsto> ''abc''] ''/f'')) ''X''
   \<and> ''abc'' \<noteq> [] \<and> last ''abc'' \<noteq> nl \<and> nl \<notin> set ''X'' \<and> ''/g'' \<noteq> ''/f''
   \<and> ensureLine ''/f'' ''X'' leaseAdd [''/f'' \<mapsto> ''abc''] = (None, [''/f'' \<mapsto> ''abcX'' @ [nl]])
   \<and> splitLines (''abcX'' @ [nl]) = [''abcX'']"
proof -
  have "ensureLine ''/f'' ''X'' leaseAdd [''/f'' \<mapsto> ''abc''] = (None, [''/f'' \<mapsto> ''abcX'' @ [nl]])"
    by (simp add: ensureLine_def CreateIfMissing_def isLineInFile_def OS_Open_def scanLines_def
      MaxScanTokenSize_def dropCR_def appendLineToFile_def AppendFile_def)
  then show ?thesis
    using ensureLine_add_frame [of "''/f''" "''X''" "[''/f'' \<mapsto> ''abc'']"]
    by (simp add: fileContent_def scanLines_def MaxScanTokenSize_def dropCR_def)
qed

lemma splitLines_first_prefix: "splitLines c = l # ls \<Longrightarrow> prefix l c"
  by (induction c arbitrary: l ls) (auto split: if_splits list.splits)

lemma splitLines_sublist: "l \<in> set (splitLines c) \<Longrightarrow> sublist l c"
proof (induction c arbitrary: l)
  case Nil
  then show ?case by simp
next
  case (Cons x cs)
  show ?case
  proof (cases "x = nl")
    case True
    then show ?thesis using Cons by (auto simp: sublist_Cons_right)
  next
    case False
    show ?thesis
    proof (cases "splitLines cs")
      case Nil
      then show ?thesis using False Cons.prems by (auto simp: sublist_Cons_right)
    next
      case (Cons l' ls)
      then have p: "prefix l' cs" by (rule splitLines_first_prefix)
      from Cons False Cons.prems have "l = x # l' \<or> l \<in> set ls" by auto
      then show ?thesis
      proof
        assume "l = x # l'"
        then have "prefix l (x # cs)" using p by simp
        then show ?thesis by (rule prefix_imp_sublist)
      next
        assume "l \<in> set ls"
        then have "l \<in> set (splitLines cs)" using Cons by simp
        then have "sublist l cs" by (rule Cons.IH)
        then show ?thesis by (simp add: sublist_Cons_right)
      qed
    qed
  qed
qed

lemma dropCR_sublist: "sublist (dropCR l) l"
  by (auto simp: dropCR_def intro: prefix_imp_sublist prefixeq_butlast)

lemma scanLines_sublist: "l \<in> set (scanLines c) \<Longrightarrow> sublist l c"
proof -
  assume "l \<in> set (scanLines c)"
  then obtain r where r: "r \<in> set (splitLines c)" "l = dropCR r"
    by (auto simp: scanLines_def dest: set_takeWhileD)
  have "sublist l r" using r(2) dropCR_sublist by simp
  moreover have "sublist r c" using r(1) by (rule splitLines_sublist)
  ultimately show ?thesis by (rule sublist_order.order_trans)
qed

lemma isLineInFile_scan_Contains:
  "isLineInFile_scan (scanLines c) token \<Longrightarrow> Contains c token"
proof -
  assume "isLineInFile_scan (scanLines c) token"
  then obtain l where l: "l \<in> set (scanLines c)" "Contains l token"
    by (auto simp: isLineInFile_scan_iff)
  then have "sublist token l" by (simp add: Contains_sublist)
  moreover have "sublist l c" using l(1) by (rule scanLines_sublist)
  ultimately have "sublist token c" by (rule sublist_order.order_trans)
  then show ?thesis by (simp add: Contains_sublist)
qed

lemma scanLines_long_first:
  "nl \<notin> set l \<Longrightarrow> MaxScanTokenSize \<le> length l \<Longrightarrow> scanLines (l @ nl # rest) = []"
  by (simp add: scanLines_def splitLines_line_cons)

lemma scanLines_short_first:
  "nl \<notin> set l \<Longrightarrow> length l < MaxScanTokenSize \<Longrightarrow>
   scanLines (l @ nl # rest) = dropCR l # scanLines rest"
  by (simp add: scanLines_def splitLines_line_cons)

text \<open>
  Claim C7 as stated fails, for three files. With a line of \<open>MaxScanTokenSize\<close> bytes
  before the line \<open>X\<close>, the scanner stops at the long line, the presence check is false,
  and \<open>leaseRemove\<close> returns success with the line \<open>X\<close> still in the file. With such a
  line after the line \<open>X\<close>, the rewrite ends at the long line and the file loses the
  line \<open>keep\<close> as well. And on the file \<open>10.0.0.10\<close> (no final newline) with the token
  \<open>10.0.0.1\<close>, no line equals the token, yet the file is rewritten with a newline
  appended.
\<close>

theorem ensureLine_remove_counterexample:
  "''X'' \<in> set (splitLines (replicate 65536 (CHR ''a'') @ [nl] @ ''X'' @ [nl]))
   \<and> ensureLine ''/f'' ''X'' leaseRemove [''/f'' \<mapsto> replicate 65536 (CHR ''a'') @ [nl] @ ''X'' @ [nl]]
       = (None, [''/f'' \<mapsto> replicate 65536 (CHR ''a'') @ [nl] @ ''X'' @ [nl]])
   \<and> ''keep'' \<in> set (splitLines (''X'' @ [nl] @ replicate 65536 (CHR ''a'') @ [nl] @ ''keep'' @ [nl]))
   \<and> ensureLine ''/f'' ''X'' leaseRemove
        [''/f'' \<mapsto> ''X'' @ [nl] @ replicate 65536 (CHR ''a'') @ [nl] @ ''keep'' @ [nl]]
       = (None, [''/f'' \<mapsto> []])
   \<and> ''10.0.0.1'' \<notin> set (splitLines ''10.0.0.10'')
   \<and> ensureLine ''/f'' ''10.0.0.1'' leaseRemove [''/f'' \<mapsto> ''10.0.0.10'']
       = (None, [''/f'' \<mapsto> ''10.0.0.10'' @ [nl]])
   \<and> ''10.0.0.10'' @ [nl] \<noteq> ''10.0.0.10''"
proof -
  let ?long = "replicate 65536 (CHR ''a'')"
  have nn: "nl \<notin> set ?long" by simp
  have len: "MaxScanTokenSize \<le> length ?long" by (simp add: MaxScanTokenSize_def)
  have s1: "splitLines (?long @ nl # ''X'' @ [nl]) = ?long # splitLines (''X'' @ [nl])"
    using nn by (rule splitLines_line_cons)
  have a1: "''X'' \<in> set (splitLines (?long @ [nl] @ ''X'' @ [nl]))"
    using s1 by simp
  have sc1: "scanLines (?long @ nl # ''X'' @ [nl]) = []"
    using nn len by (rule scanLines_long_first)
  have a2: "ensureLine ''/f'' ''X'' leaseRemove [''/f'' \<mapsto> ?long @ [nl] @ ''X'' @ [nl]]
       = (None, [''/f'' \<mapsto> ?long @ [nl] @ ''X'' @ [nl]])"
    using sc1 by (simp add: ensureLine_remove_existing)
  have s2: "splitLines (?long @ nl # ''keep'' @ [nl]) = ?long # splitLines (''keep'' @ [nl])"
    using nn by (rule splitLines_line_cons)
  have a3: "''keep'' \<in> set (splitLines (''X'' @ [nl] @ ?long @ [nl] @ ''keep'' @ [nl]))"
    using s2 by simp
  have sc2a: "scanLines (?long @ nl # ''keep'' @ [nl]) = []"
    using nn len by (rule scanLines_long_first)
  have sc2: "scanLines (''X'' @ nl # ?long @ nl # ''keep'' @ [nl]) = [''X'']"
    using scanLines_short_first [of "''X''" "?long @ nl # ''keep'' @ [nl]"] sc2a
    by (simp add: MaxScanTokenSize_def dropCR_def)
  have a4: "ensureLine ''/f'' ''X'' leaseRemove
        [''/f'' \<mapsto> ''X'' @ [nl] @ ?long @ [nl] @ ''keep'' @ [nl]] = (None, [''/f'' \<mapsto> []])"
    using sc2 by (simp add: ensureLine_remove_existing unlines_def)
  have a5: "''10.0.0.1'' \<notin> set (splitLines ''10.0.0.10'')" by simp
  have a6: "ensureLine ''/f'' ''10.0.0.1'' leaseRemove [''/f'' \<mapsto> ''10.0.0.10'']
       = (None, [''/f'' \<mapsto> ''10.0.0.10'' @ [nl]])"
    by (simp add: ensureLine_remove_existing scanLines_def MaxScanTokenSize_def dropCR_def unlines_def)
  have a7: "''10.0.0.10'' @ [nl] \<noteq> ''10.0.0.10''" by simp
  from a1 a2 a3 a4 a5 a6 a7 show ?thesis by (intro conjI)
qed

lemma remove_wellformed:
  assumes c: "fs path = Some (unlines ls)"
    and wf: "\<forall>l \<in> set ls. nl \<notin> set l \<and> length l < MaxScanTokenSize \<and> dropCR l = l"
  shows "ensureLine path token leaseRemove fs =
           (None, fs(path \<mapsto> unlines (filter (\<lambda>l. l \<noteq> token) ls)))"
proof -
  have scan: "scanLines (unlines ls) = ls" using wf by (rule scanLines_unlines)
  show ?thesis
  proof (cases "isLineInFile_scan ls token")
    case True
    then show ?thesis using c scan by (simp add: ensureLine_remove_existing)
  next
    case False
    then have "token \<notin> set ls" using Contains_self by (auto simp: isLineInFile_scan_iff)
    then have "filter (\<lambda>l. l \<noteq> token) ls = ls" by (auto simp: filter_id_conv)
    moreover have "fs(path \<mapsto> unlines ls) = fs" using c by (simp add: fun_upd_idem)
    ultimately show ?thesis using c scan False by (simp add: ensureLine_remove_existing)
  qed
qed

text \<open>
  Claim C7, amended: on a file made of newline-terminated lines, each without carriage
  return at its end and shorter than \<open>MaxScanTokenSize\<close>, \<open>ensureLine\<close> with
  \<open>leaseRemove\<close> succeeds and leaves exactly the lines that differ from the token, in
  their order, each followed by a newline; when no line equals the token the
  filesystem is unchanged. On any existing file in which the token occurs nowhere, it
  succeeds and leaves the filesystem unchanged.
\<close>

theorem ensureLine_remove_wellformed:
  "(fs path = Some (unlines ls)
      \<and> (\<forall>l \<in> set ls. nl \<notin> set l \<and> length l < MaxScanTokenSize \<and> dropCR l = l)
    \<longrightarrow> ensureLine path token leaseRemove fs =
          (None, fs(path \<mapsto> unlines (filter (\<lambda>l. l \<noteq> token) ls)))
        \<and> splitLines (unlines (filter (\<lambda>l. l \<noteq> token) ls)) = filter (\<lambda>l. l \<noteq> token) ls
        \<and> (token \<notin> set ls \<longrightarrow> ensureLine path token leaseRemove fs = (None, fs)))
   \<and> (fs path = Some c \<and> \<not> Contains c token
    \<longrightarrow> ensureLine path token leaseRemove fs = (None, fs))"
proof -
  have A: "ensureLine path token leaseRemove fs =
          (None, fs(path \<mapsto> unlines (filter (\<lambda>l. l \<noteq> token) ls)))
        \<and> splitLines (unlines (filter (\<lambda>l. l \<noteq> token) ls)) = filter (\<lambda>l. l \<noteq> token) ls
        \<and> (token \<notin> set ls \<longrightarrow> ensureLine path token leaseRemove fs = (None, fs))"
    if c: "fs path = Some (unlines ls)"
      and wf: "\<forall>l \<in> set ls. nl \<notin> set l \<and> length l < MaxScanTokenSize \<and> dropCR l = l"
  proof -
    have r: "ensureLine path token leaseRemove fs =
          (None, fs(path \<mapsto> unlines (filter (\<lambda>l. l \<noteq> token) ls)))"
      using c wf by (rule remove_wellformed)
    have "\<forall>l \<in> set (filter (\<lambda>l. l \<noteq> token) ls). nl \<notin> set l" using wf by simp
    then have s: "splitLines (unlines (filter (\<lambda>l. l \<noteq> token) ls)) = filter (\<lambda>l. l \<noteq> token) ls"
      by (rule splitLines_unlines)
    have u: "ensureLine path token leaseRemove fs = (None, fs)" if "token \<notin> set ls"
    proof -
      from that have "filter (\<lambda>l. l \<noteq> token) ls = ls" by (auto simp: filter_id_conv)
      moreover have "fs(path \<mapsto> unlines ls) = fs" using c by (simp add: fun_upd_idem)
      ultimately show ?thesis using r by simp
    qed
    from r s u show ?thesis by blast
  qed
  have B: "ensureLine path token leaseRemove fs = (None, fs)"
    if "fs path = Some c" and "\<not> Contains c token"
    using that isLineInFile_scan_Contains [of c token]
    by (auto simp: ensureLine_remove_existing)
  from A B show ?thesis by blast
qed

theorem ensureLine_remove_wellformed_witness:
  "[''/f'' \<mapsto> ''a'' @ [nl] @ ''X'' @ [nl] @ ''b'' @ [nl] @ ''X'' @ [nl]] ''/f''
     = Some (unlines [''a'', ''X'', ''b'', ''X''])
   \<and> list_all (\<lambda>l. nl \<notin> set l \<and> length l < MaxScanTokenSize \<and> dropCR l = l) [''a'', ''X'', ''b'', ''X'']
   \<and> ensureLine ''/f'' ''X'' leaseRemove [''/f'' \<mapsto> ''a'' @ [nl] @ ''X'' @ [nl] @ ''b'' @ [nl] @ ''X'' @ [nl]]
       = (None, [''/f'' \<mapsto> ''a'' @ [nl] @ ''b'' @ [nl]])
   \<and> splitLines (''a'' @ [nl] @ ''b'' @ [nl]) = [''a'', ''b'']
   \<and> [''/f'' \<mapsto> ''token10'' @ [nl]] ''/f'' = Some (unlines [''token10''])
   \<and> ''token1'' \<notin> set [''token10'']
   \<and> ensureLine ''/f'' ''token1'' leaseRemove [''/f'' \<mapsto> ''token10'' @ [nl]]
       = (None, [''/f'' \<mapsto> ''token10'' @ [nl]])
   \<and> \<not> Contains ''abc'' ''token1''
   \<and> ensureLine ''/f'' ''token1'' leaseRemove [''/f'' \<mapsto> ''abc''] = (None, [''/f'' \<mapsto> ''abc''])"
proof -
  let ?fs = "[''/f'' \<mapsto> ''a'' @ [nl] @ ''X'' @ [nl] @ ''b'' @ [nl] @ ''X'' @ [nl]]"
  let ?ls = "[''a'', ''X'', ''b'', ''X'']"
  have h1: "?fs ''/f'' = Some (unlines ?ls)" by (simp add: unlines_def)
  have h2: "\<forall>l \<in> set ?ls. nl \<notin> set l \<and> length l < MaxScanTokenSize \<and> dropCR l = l"
    by (simp add: MaxScanTokenSize_def dropCR_def)
  have r1: "ensureLine ''/f'' ''X'' leaseRemove ?fs = (None, [''/f'' \<mapsto> ''a'' @ [nl] @ ''b'' @ [nl]])
      \<and> splitLines (''a'' @ [nl] @ ''b'' @ [nl]) = [''a'', ''b'']"
    using ensureLine_remove_wellformed
            [where fs = ?fs and path = "''/f''" and ls = ?ls and token = "''X''", THEN conjunct1]
          h1 h2
    by (auto simp: unlines_def)
  let ?fs2 = "[''/f'' \<mapsto> ''token10'' @ [nl]]"
  have g1: "?fs2 ''/f'' = Some (unlines [''token10''])" by (simp add: unlines_def)
  have g2: "\<forall>l \<in> set [''token10'']. nl \<notin> set l \<and> length l < MaxScanTokenSize \<and> dropCR l = l"
    by (simp add: MaxScanTokenSize_def dropCR_def)
  have g3: "''token1'' \<notin> set [''token10'']" by simp
  have r2: "ensureLine ''/f'' ''token1'' leaseRemove ?fs2 = (None, ?fs2)"
    using ensureLine_remove_wellformed
            [where fs = ?fs2 and path = "''/f''" and ls = "[''token10'']" and token = "''token1''",
             THEN conjunct1]
          g1 g2 g3
    by blast
  have k1: "\<not> Contains ''abc'' ''token1''" by simp
  have r3: "ensureLine ''/f'' ''token1'' leaseRemove [''/f'' \<mapsto> ''abc''] = (None, [''/f'' \<mapsto> ''abc''])"
    using ensureLine_remove_wellformed
            [where fs = "[''/f'' \<mapsto> ''abc'']" and path = "''/f''" and c = "''abc''"
               and token = "''token1''", THEN conjunct2]
          k1
    by simp
  have l2: "list_all (\<lambda>l. nl \<notin> set l \<and> length l < MaxScanTokenSize \<and> dropCR l = l) ?ls"
    using h2 by (simp add: list_all_iff)
  from h1 l2 r1 g1 g3 r2 k1 r3 show ?thesis by (intro conjI) (simp_all only: HOL.simp_thms)
qed

text \<open>
  Claim C5 as stated fails: the file with two lines \<open>X\<close> still has two lines \<open>X\<close> after a
  successful \<open>ensureLine\<close> with \<open>leaseAdd\<close>, which does nothing when the token is present.
\<close>

theorem ensureLine_keeps_duplicates_counterexample:
  "fst (ensureLine ''/f'' ''X'' leaseAdd [''/f'' \<mapsto> ''X'' @ [nl] @ ''X'' @ [nl]]) = None
   \<and> \<not> countLines ''X''
          (fileContent (snd (ensureLine ''/f'' ''X'' leaseAdd [''/f'' \<mapsto> ''X'' @ [nl] @ ''X'' @ [nl]])) ''/f'')
        \<le> 1"
  by (simp add: ensureLine_def CreateIfMissing_def isLineInFile_def OS_Open_def scanLines_def
      MaxScanTokenSize_def dropCR_def countLines_def fileContent_def)

text \<open>
  Claim C5, amended: \<open>ensureLine\<close> keeps "at most one line equal to the token" rather
  than establishing it. For a token without newline and without trailing carriage
  return, and a file whose lines are all shorter than \<open>MaxScanTokenSize\<close>: if at most one
  line equals the token before a call (with either operation), the call succeeds and at
  most one line equals the token afterwards. And for a file made of newline-terminated
  lines (each without carriage return at its end and shorter than \<open>MaxScanTokenSize\<close>, as
  is the token) in which the token is at most once a line and occurs inside no other
  line: after \<open>leaseAdd\<close> the file has exactly one line equal to the token, and a second
  \<open>leaseAdd\<close> succeeds and changes nothing.
\<close>

theorem ensureLine_at_most_one_line:
  "(nl \<notin> set token \<and> dropCR token = token
      \<and> (\<forall>l \<in> set (splitLines (fileContent fs path)). length l < MaxScanTokenSize)
      \<and> countLines token (fileContent fs path) \<le> 1
    \<longrightarrow> fst (ensureLine path token op fs) = None
        \<and> countLines token (fileContent (snd (ensureLine path token op fs)) path) \<le> 1)
   \<and> (fileContent fs path = unlines ls
      \<and> (\<forall>l \<in> set (token # ls). nl \<notin> set l \<and> length l < MaxScanTokenSize \<and> dropCR l = l)
      \<and> (\<forall>l \<in> set ls. Contains l token \<longrightarrow> l = token)
      \<and> length (filter (\<lambda>l. l = token) ls) \<le> 1
    \<longrightarrow> fst (ensureLine path token leaseAdd fs) = None
        \<and> ensureLine path token leaseAdd (snd (ensureLine path token leaseAdd fs)) =
            (None, snd (ensureLine path token leaseAdd fs))
        \<and> countLines token (fileContent (snd (ensureLine path token leaseAdd fs)) path) = 1)"
  using ensureLine_preserves_at_most_one [of token fs path op]
    add_twice_exactly_one [of fs path ls token]
  by blast

theorem ensureLine_at_most_one_line_witness:
  "nl \<notin> set ''X'' \<and> dropCR ''X'' = ''X''
   \<and> list_all (\<lambda>l. length l < MaxScanTokenSize)
        (splitLines (fileContent [''/f'' \<mapsto> ''a'' @ [nl] @ ''X'' @ [nl]] ''/f''))
   \<and> countLines ''X'' (fileContent [''/f'' \<mapsto> ''a'' @ [nl] @ ''X'' @ [nl]] ''/f'') \<le> 1
   \<and> fst (ensureLine ''/f'' ''X'' leaseRemove [''/f'' \<mapsto> ''a'' @ [nl] @ ''X'' @ [nl]]) = None
   \<and> countLines ''X''
        (fileContent (snd (ensureLine ''/f'' ''X'' leaseRemove [''/f'' \<mapsto> ''a'' @ [nl] @ ''X'' @ [nl]])) ''/f'')
       \<le> 1
   \<and> fileContent [''/f'' \<mapsto> ''a'' @ [nl]] ''/f'' = unlines [''a'']
   \<and> list_all (\<lambda>l. nl \<notin> set l \<and> length l < MaxScanTokenSize \<and> dropCR l = l) [''X'', ''a'']
   \<and> list_all (\<lambda>l. \<not> Contains l ''X'') [''a'']
   \<and> length (filter (\<lambda>l. l = ''X'') [''a'']) \<le> 1
   \<and> ensureLine ''/f'' ''X'' leaseAdd (snd (ensureLine ''/f'' ''X'' leaseAdd [''/f'' \<mapsto> ''a'' @ [nl]]))
       = (None, snd (ensureLine ''/f'' ''X'' leaseAdd [''/f'' \<mapsto> ''a'' @ [nl]]))
   \<and> countLines ''X'' (fileContent (snd (ensureLine ''/f'' ''X'' leaseAdd [''/f'' \<mapsto> ''a'' @ [nl]])) ''/f'') = 1"
  using ensureLine_at_most_one_line
          [of "''X''" "[''/f'' \<mapsto> ''a'' @ [nl] @ ''X'' @ [nl]]" "''/f''" leaseRemove "[]"]
        ensureLine_at_most_one_line
          [of "''X''" "[''/f'' \<mapsto> ''a'' @ [nl]]" "''/f''" leaseAdd "[''a'']"]
  by (simp add: fileContent_def countLines_def MaxScanTokenSize_def dropCR_def unlines_def)

text \<open>
  Claim C6 as stated fails: on the file with the single line \<open>X\<close>, \<open>leaseAdd\<close> does
  nothing and \<open>leaseRemove\<close> then empties the file, which differs from the content
  before the \<open>leaseAdd\<close> even without trailing newlines.
\<close>

theorem ensureLine_add_remove_counterexample:
  "ensureLine ''/f'' ''X'' leaseRemove (snd (ensureLine ''/f'' ''X'' leaseAdd [''/f'' \<mapsto> ''X'' @ [nl]]))
     = (None, [''/f'' \<mapsto> []])
   \<and> stripTrailingNewlines [] \<noteq> stripTrailingNewlines (''X'' @ [nl])"
  by (simp add: ensureLine_def CreateIfMissing_def isLineInFile_def OS_Open_def scanLines_def
      MaxScanTokenSize_def dropCR_def removeLineFromFile_def Copy_at_start_def Truncate_def
      stripTrailingNewlines_def)

text \<open>
  Claim C6, amended: for a file made of newline-terminated lines (each without carriage
  return at its end and shorter than \<open>MaxScanTokenSize\<close>, as is the token), none of which
  contains the token, \<open>leaseAdd\<close> appends the token's line and \<open>leaseRemove\<close> after it
  returns the filesystem to exactly what it was.
\<close>

theorem ensureLine_add_remove_roundtrip:
  assumes "fs path = Some (unlines ls)"
    and "\<forall>l \<in> set (token # ls). nl \<notin> set l \<and> length l < MaxScanTokenSize \<and> dropCR l = l"
    and "\<forall>l \<in> set ls. \<not> Contains l token"
  shows "ensureLine path token leaseAdd fs = (None, fs(path \<mapsto> unlines ls @ token @ [nl]))
       \<and> ensureLine path token leaseRemove (snd (ensureLine path token leaseAdd fs)) = (None, fs)"
  using assms by (rule add_then_remove)

theorem ensureLine_add_remove_roundtrip_witness:
  "[''/f'' \<mapsto> ''a'' @ [nl] @ ''b'' @ [nl]] ''/f'' = Some (unlines [''a'', ''b''])
   \<and> list_all (\<lambda>l. nl \<notin> set l \<and> length l < MaxScanTokenSize \<and> dropCR l = l) [''X'', ''a'', ''b'']
   \<and> list_all (\<lambda>l. \<not> Contains l ''X'') [''a'', ''b'']
   \<and> ensureLine ''/f'' ''X'' leaseAdd [''/f'' \<mapsto> ''a'' @ [nl] @ ''b'' @ [nl]]
       = (None, [''/f'' \<mapsto> ''a'' @ [nl] @ ''b'' @ [nl] @ ''X'' @ [nl]])
   \<and> ensureLine ''/f'' ''X'' leaseRemove
        (snd (ensureLine ''/f'' ''X'' leaseAdd [''/f'' \<mapsto> ''a'' @ [nl] @ ''b'' @ [nl]]))
       = (None, [''/f'' \<mapsto> ''a'' @ [nl] @ ''b'' @ [nl]])"
proof -
  have h1: "[''/f'' \<mapsto> ''a'' @ [nl] @ ''b'' @ [nl]] ''/f'' = Some (unlines [''a'', ''b''])"
    by (simp add: unlines_def)
  have h2: "\<forall>l \<in> set (''X'' # [''a'', ''b'']). nl \<notin> set l \<and> length l < MaxScanTokenSize \<and> dropCR l = l"
    by (simp add: MaxScanTokenSize_def dropCR_def)
  have h3: "\<forall>l \<in> set [''a'', ''b'']. \<not> Contains l ''X''"
    by simp
  show ?thesis
    using h1 h2 h3
      ensureLine_add_remove_roundtrip
        [of "[''/f'' \<mapsto> ''a'' @ [nl] @ ''b'' @ [nl]]" "''/f''" "[''a'', ''b'']" "''X''", OF h1 h2 h3]
    by (auto simp: unlines_def)
qed

section \<open>Claims about the local route reconciler\<close>

lemma isRouteExist_calls:
  "calls (snd (isRouteExist net h ip netmask sh)) =
     calls sh @ [(''/sbin/ip'', [''ro'', ''show'', IP_String net ip @ ''/'' @ netmask])]"
  by (auto simp: isRouteExist_def Exec_def Let_def split: prod.splits option.splits)

lemma createRoute_calls:
  "calls (snd (createRoute net h ip netmask via dest extra sh)) =
     calls sh @ [(''/sbin/ip'', [''ro'', ''add'', IP_String net ip @ ''/'' @ netmask, via, dest] @ extra)]"
  by (auto simp: createRoute_def Exec_def Let_def split: prod.splits option.splits)

lemma createRoute_error:
  "fst (createRoute net h ip netmask via dest extra sh) = Some e \<Longrightarrow>
   \<exists>x. e = shelloutError x ''/sbin/ip''
          ([''ro'', ''add'', IP_String net ip @ ''/'' @ netmask, via, dest] @ extra)"
  by (auto simp: createRoute_def Exec_def Let_def split: prod.splits option.splits)

text \<open>
  Claim C2: \<open>ensureRouteToEndpoint\<close> is idempotent. Whatever the executor, if
  \<open>ip ro show\<close> for the endpoint's address and netmask answers with some output and no
  error, the call makes that one invocation and returns success. And if \<open>ip ro show\<close>
  first answers with no output, \<open>ip ro add\<close> then succeeds, and \<open>ip ro show\<close> after it
  answers with some output, two calls in a row both succeed and the port receives
  exactly: show, add, show.
\<close>

theorem ensureRouteToEndpoint_idempotent:
  "(Executor h ''/sbin/ip''
        [''ro'', ''show'', IP_String net (IP netif) @ ''/'' @ Sprintf_d (EndpointNetmaskSize h)]
        (kernel sh) = ((out, None), k') \<and> out \<noteq> []
      \<longrightarrow> ensureRouteToEndpoint net h netif sh
            = (None, \<lparr>kernel = k', calls = calls sh @
                 [(''/sbin/ip'', [''ro'', ''show'',
                     IP_String net (IP netif) @ ''/'' @ Sprintf_d (EndpointNetmaskSize h)])]\<rparr>))
   \<and> (Executor h ''/sbin/ip''
        [''ro'', ''show'', IP_String net (IP netif) @ ''/'' @ Sprintf_d (EndpointNetmaskSize h)]
        (kernel sh) = (([], None), ka)
      \<and> Executor h ''/sbin/ip''
        [''ro'', ''add'', IP_String net (IP netif) @ ''/'' @ Sprintf_d (EndpointNetmaskSize h),
         ''dev'', Name netif, ''src'', IP_String net (romanaGW h)] ka = ((outb, None), kb)
      \<and> Executor h ''/sbin/ip''
        [''ro'', ''show'', IP_String net (IP netif) @ ''/'' @ Sprintf_d (EndpointNetmaskSize h)]
        kb = ((outc, None), kc) \<and> outc \<noteq> []
      \<longrightarrow> ensureRouteToEndpoint net h netif sh
            = (None, \<lparr>kernel = kb, calls = calls sh @
                 [(''/sbin/ip'', [''ro'', ''show'',
                     IP_String net (IP netif) @ ''/'' @ Sprintf_d (EndpointNetmaskSize h)]),
                  (''/sbin/ip'', [''ro'', ''add'',
                     IP_String net (IP netif) @ ''/'' @ Sprintf_d (EndpointNetmaskSize h),
                     ''dev'', Name netif, ''src'', IP_String net (romanaGW h)])]\<rparr>)
        \<and> ensureRouteToEndpoint net h netif (snd (ensureRouteToEndpoint net h netif sh))
            = (None, \<lparr>kernel = kc, calls = calls sh @
                 [(''/sbin/ip'', [''ro'', ''show'',
                     IP_String net (IP netif) @ ''/'' @ Sprintf_d (EndpointNetmaskSize h)]),
                  (''/sbin/ip'', [''ro'', ''add'',
                     IP_String net (IP netif) @ ''/'' @ Sprintf_d (EndpointNetmaskSize h),
                     ''dev'', Name netif, ''src'', IP_String net (romanaGW h)]),
                  (''/sbin/ip'', [''ro'', ''show'',
                     IP_String net (IP netif) @ ''/'' @ Sprintf_d (EndpointNetmaskSize h)])]\<rparr>))"
  by (simp add: ensureRouteToEndpoint_def isRouteExist_def createRoute_def Exec_def Let_def)


text \<open>
  The scenario of the spec on the route table double: NetIf \<open>{IP: 10.0.0.5, Name: veth0}\<close>,
  netmask 16.
\<close>

theorem ensureRouteToEndpoint_idempotent_witness:
  "ensureRouteToEndpoint example_net (example_helper []) \<lparr>Name = ''veth0'', IP = [10, 0, 0, 5]\<rparr>
       \<lparr>kernel = [''10.0.0.5/16''], calls = []\<rparr>
     = (None, \<lparr>kernel = [''10.0.0.5/16''],
               calls = [(''/sbin/ip'', [''ro'', ''show'', ''10.0.0.5/16''])]\<rparr>)
   \<and> ensureRouteToEndpoint example_net (example_helper []) \<lparr>Name = ''veth0'', IP = [10, 0, 0, 5]\<rparr>
       \<lparr>kernel = [], calls = []\<rparr>
     = (None, \<lparr>kernel = [''10.0.0.5/16''],
               calls = [(''/sbin/ip'', [''ro'', ''show'', ''10.0.0.5/16'']),
                        (''/sbin/ip'', [''ro'', ''add'', ''10.0.0.5/16'', ''dev'', ''veth0'',
                                        ''src'', ''10.0.0.1''])]\<rparr>)
   \<and> ensureRouteToEndpoint example_net (example_helper []) \<lparr>Name = ''veth0'', IP = [10, 0, 0, 5]\<rparr>
       (snd (ensureRouteToEndpoint example_net (example_helper []) \<lparr>Name = ''veth0'', IP = [10, 0, 0, 5]\<rparr>
          \<lparr>kernel = [], calls = []\<rparr>))
     = (None, \<lparr>kernel = [''10.0.0.5/16''],
               calls = [(''/sbin/ip'', [''ro'', ''show'', ''10.0.0.5/16'']),
                        (''/sbin/ip'', [''ro'', ''add'', ''10.0.0.5/16'', ''dev'', ''veth0'',
                                        ''src'', ''10.0.0.1'']),
                        (''/sbin/ip'', [''ro'', ''show'', ''10.0.0.5/16''])]\<rparr>)"
proof -
  let ?h = "example_helper []"
  let ?netif = "\<lparr>Name = ''veth0'', IP = [10, 0, 0, 5]\<rparr>"
  have present:
    "ensureRouteToEndpoint example_net ?h ?netif \<lparr>kernel = [''10.0.0.5/16''], calls = []\<rparr>
       = (None, \<lparr>kernel = [''10.0.0.5/16''],
                 calls = [(''/sbin/ip'', [''ro'', ''show'', ''10.0.0.5/16''])]\<rparr>)"
    using ensureRouteToEndpoint_idempotent
          [where h = ?h and net = example_net and netif = ?netif
             and sh = "\<lparr>kernel = [''10.0.0.5/16''], calls = []\<rparr>"
             and out = "''10.0.0.5/16 scope link'' @ [nl]" and k' = "[''10.0.0.5/16'']",
           THEN conjunct1]
    by (simp add: example_helper_def example_net_def Sprintf_d.simps)
  have twice:
    "ensureRouteToEndpoint example_net ?h ?netif \<lparr>kernel = [], calls = []\<rparr>
       = (None, \<lparr>kernel = [''10.0.0.5/16''],
                 calls = [(''/sbin/ip'', [''ro'', ''show'', ''10.0.0.5/16'']),
                          (''/sbin/ip'', [''ro'', ''add'', ''10.0.0.5/16'', ''dev'', ''veth0'',
                                          ''src'', ''10.0.0.1''])]\<rparr>)
     \<and> ensureRouteToEndpoint example_net ?h ?netif
         (snd (ensureRouteToEndpoint example_net ?h ?netif \<lparr>kernel = [], calls = []\<rparr>))
       = (None, \<lparr>kernel = [''10.0.0.5/16''],
                 calls = [(''/sbin/ip'', [''ro'', ''show'', ''10.0.0.5/16'']),
                          (''/sbin/ip'', [''ro'', ''add'', ''10.0.0.5/16'', ''dev'', ''veth0'',
                                          ''src'', ''10.0.0.1'']),
                          (''/sbin/ip'', [''ro'', ''show'', ''10.0.0.5/16''])]\<rparr>)"
    using ensureRouteToEndpoint_idempotent
          [where h = ?h and net = example_net and netif = ?netif
             and sh = "\<lparr>kernel = [], calls = []\<rparr>"
             and ka = "[]" and outb = "[]" and kb = "[''10.0.0.5/16'']"
             and outc = "''10.0.0.5/16 scope link'' @ [nl]" and kc = "[''10.0.0.5/16'']",
           THEN conjunct2]
    by (auto simp: example_helper_def example_net_def Sprintf_d.simps)
  from present twice show ?thesis by (rule conjI)
qed

lemma isRouteExist_otherHosts [simp]:
  "isRouteExist net (h\<lparr>otherHosts := hs\<rparr>) ip netmask sh = isRouteExist net h ip netmask sh"
  by (simp add: isRouteExist_def)

lemma createRoute_otherHosts [simp]:
  "createRoute net (h\<lparr>otherHosts := hs\<rparr>) ip netmask via dest extra sh
     = createRoute net h ip netmask via dest extra sh"
  by (simp add: createRoute_def)

lemma loop_otherHosts:
  "ensureInterHostRoutes_loop net (h\<lparr>otherHosts := hs\<rparr>) hosts sh
     = ensureInterHostRoutes_loop net h hosts sh"
  by (induction hosts arbitrary: sh) (auto simp: Let_def split: option.splits prod.splits)

lemma loop_stops_at_parse_failure:
  "ParseCIDR net (RomanaIp bad) = None \<Longrightarrow>
   ensureInterHostRoutes_loop net h (pre @ bad # post) sh =
     (case ensureInterHostRoutes_loop net h pre sh of
        (None, sh') \<Rightarrow> (Some (failedToParseOtherHosts (RomanaIp bad)), sh')
      | (Some e, sh') \<Rightarrow> (Some e, sh'))"
  by (induction pre arbitrary: sh) (auto simp: Let_def split: option.splits prod.splits)

text \<open>
  Claim C1 as stated fails: with the unparsable peer first and a parsable peer after it,
  \<open>ensureInterHostRoutes\<close> returns the parse error without a single invocation of the
  shell port, so the second peer gets neither its existence check nor its route.
\<close>

theorem ensureInterHostRoutes_parse_failure_counterexample:
  "ParseCIDR example_net ''bogus'' = None
   \<and> ParseCIDR example_net ''10.2.0.0/16'' = Some ([10, 2, 0, 0], 16)
   \<and> ensureInterHostRoutes example_net
        (example_helper [\<lparr>Ip = ''192.168.0.2'', RomanaIp = ''bogus''\<rparr>,
                         \<lparr>Ip = ''192.168.0.3'', RomanaIp = ''10.2.0.0/16''\<rparr>])
        \<lparr>kernel = [], calls = []\<rparr>
      = (Some (failedToParseOtherHosts ''bogus''), \<lparr>kernel = [], calls = []\<rparr>)"
  by (simp add: ensureInterHostRoutes_def example_helper_def example_net_def)

text \<open>
  Claim C1, amended: \<open>ensureInterHostRoutes\<close> stops at the first peer whose CIDR does not
  parse. The peers before it are processed exactly as a call on those peers alone
  would; if that succeeds, the result is \<open>failedToParseOtherHosts\<close> for the unparsable
  peer, otherwise the earlier error; the peers after it are not processed (the result
  does not depend on them).
\<close>

theorem ensureInterHostRoutes_stops_at_parse_failure:
  "otherHosts h = pre @ bad # post \<Longrightarrow> ParseCIDR net (RomanaIp bad) = None \<Longrightarrow>
   ensureInterHostRoutes net h sh =
     (case ensureInterHostRoutes net (h\<lparr>otherHosts := pre\<rparr>) sh of
        (None, sh') \<Rightarrow> (Some (failedToParseOtherHosts (RomanaIp bad)), sh')
      | (Some e, sh') \<Rightarrow> (Some e, sh'))"
  by (simp add: ensureInterHostRoutes_def loop_otherHosts loop_stops_at_parse_failure)

theorem ensureInterHostRoutes_stops_at_parse_failure_witness:
  "otherHosts (example_helper [\<lparr>Ip = ''192.168.0.1'', RomanaIp = ''10.1.0.0/16''\<rparr>,
                              \<lparr>Ip = ''192.168.0.2'', RomanaIp = ''bogus''\<rparr>,
                              \<lparr>Ip = ''192.168.0.3'', RomanaIp = ''10.2.0.0/16''\<rparr>])
     = [\<lparr>Ip = ''192.168.0.1'', RomanaIp = ''10.1.0.0/16''\<rparr>]
       @ \<lparr>Ip = ''192.168.0.2'', RomanaIp = ''bogus''\<rparr>
       # [\<lparr>Ip = ''192.168.0.3'', RomanaIp = ''10.2.0.0/16''\<rparr>]
   \<and> ParseCIDR example_net (RomanaIp \<lparr>Ip = ''192.168.0.2'', RomanaIp = ''bogus''\<rparr>) = None
   \<and> ensureInterHostRoutes example_net
        (example_helper [\<lparr>Ip = ''192.168.0.1'', RomanaIp = ''10.1.0.0/16''\<rparr>,
                         \<lparr>Ip = ''192.168.0.2'', RomanaIp = ''bogus''\<rparr>,
                         \<lparr>Ip = ''192.168.0.3'', RomanaIp = ''10.2.0.0/16''\<rparr>])
        \<lparr>kernel = [], calls = []\<rparr>
      = (Some (failedToParseOtherHosts ''bogus''),
         \<lparr>kernel = [''10.1.0.0/16''],
          calls = [(''/sbin/ip'', [''ro'', ''show'', ''10.1.0.0/16'']),
                   (''/sbin/ip'', [''ro'', ''add'', ''10.1.0.0/16'', ''via'', ''192.168.0.1''])]\<rparr>)"
proof -
  let ?pre = "[\<lparr>Ip = ''192.168.0.1'', RomanaIp = ''10.1.0.0/16''\<rparr>]"
  let ?bad = "\<lparr>Ip = ''192.168.0.2'', RomanaIp = ''bogus''\<rparr>"
  let ?post = "[\<lparr>Ip = ''192.168.0.3'', RomanaIp = ''10.2.0.0/16''\<rparr>]"
  let ?h = "example_helper (?pre @ ?bad # ?post)"
  have h1: "otherHosts ?h = ?pre @ ?bad # ?post" by (simp add: example_helper_def)
  have h2: "ParseCIDR example_net (RomanaIp ?bad) = None" by (simp add: example_net_def)
  have pre: "ensureInterHostRoutes example_net (?h\<lparr>otherHosts := ?pre\<rparr>) \<lparr>kernel = [], calls = []\<rparr>
      = (None, \<lparr>kernel = [''10.1.0.0/16''],
          calls = [(''/sbin/ip'', [''ro'', ''show'', ''10.1.0.0/16'']),
                   (''/sbin/ip'', [''ro'', ''add'', ''10.1.0.0/16'', ''via'', ''192.168.0.1''])]\<rparr>)"
    by (simp add: ensureInterHostRoutes_def example_helper_def example_net_def
        isRouteExist_def createRoute_def Exec_def Let_def Sprintf_d.simps)
  have "ensureInterHostRoutes example_net ?h \<lparr>kernel = [], calls = []\<rparr>
      = (Some (failedToParseOtherHosts ''bogus''),
         \<lparr>kernel = [''10.1.0.0/16''],
          calls = [(''/sbin/ip'', [''ro'', ''show'', ''10.1.0.0/16'']),
                   (''/sbin/ip'', [''ro'', ''add'', ''10.1.0.0/16'', ''via'', ''192.168.0.1''])]\<rparr>)"
    using ensureInterHostRoutes_stops_at_parse_failure [OF h1 h2, of "\<lparr>kernel = [], calls = []\<rparr>"]
    by (simp only: pre) simp
  with h1 h2 show ?thesis by simp
qed

lemma isRouteExist_error_is_query_error:
  "fst (isRouteExist net h ip netmask sh) = Some e \<Longrightarrow> is_query_error e"
  by (auto simp: isRouteExist_def Exec_def Let_def split: prod.splits option.splits if_splits)

lemma ensureRouteToEndpoint_no_query_error:
  "fst (ensureRouteToEndpoint net h netif sh) = Some e \<Longrightarrow> \<not> is_query_error e"
  by (auto simp: ensureRouteToEndpoint_def Let_def split: prod.splits option.splits)

lemma loop_no_query_error:
  "fst (ensureInterHostRoutes_loop net h hosts sh) = Some e \<Longrightarrow> \<not> is_query_error e"
  by (induction hosts arbitrary: sh) (auto simp: Let_def split: prod.splits option.splits)

lemma ensureRouteToEndpoint_after_query_error:
  assumes "fst (isRouteExist net h (IP netif) (Sprintf_d (EndpointNetmaskSize h)) sh) = Some e"
  shows "calls (snd (ensureRouteToEndpoint net h netif sh)) =
           calls sh @
             [(''/sbin/ip'', [''ro'', ''show'',
                 IP_String net (IP netif) @ ''/'' @ Sprintf_d (EndpointNetmaskSize h)]),
              (''/sbin/ip'', [''ro'', ''add'',
                 IP_String net (IP netif) @ ''/'' @ Sprintf_d (EndpointNetmaskSize h),
                 ''dev'', Name netif, ''src'', IP_String net (romanaGW h)])]
         \<and> (fst (ensureRouteToEndpoint net h netif sh) = None
            \<or> (\<exists>x. fst (ensureRouteToEndpoint net h netif sh) =
                  Some (netIfRouteCreateError
                    (shelloutError x ''/sbin/ip''
                       [''ro'', ''add'',
                        IP_String net (IP netif) @ ''/'' @ Sprintf_d (EndpointNetmaskSize h),
                        ''dev'', Name netif, ''src'', IP_String net (romanaGW h)])
                    netif)))"
proof -
  let ?m = "Sprintf_d (EndpointNetmaskSize h)"
  obtain sh1 where q: "isRouteExist net h (IP netif) ?m sh = (Some e, sh1)"
    using assms by (cases "isRouteExist net h (IP netif) ?m sh") auto
  have c1: "calls sh1 = calls sh @ [(''/sbin/ip'', [''ro'', ''show'', IP_String net (IP netif) @ ''/'' @ ?m])]"
    using isRouteExist_calls [of net h "IP netif" ?m sh] q by simp
  let ?cr = "createRoute net h (IP netif) ?m ''dev'' (Name netif) [''src'', IP_String net (romanaGW h)] sh1"
  have c2: "calls (snd ?cr) = calls sh1 @
      [(''/sbin/ip'', [''ro'', ''add'', IP_String net (IP netif) @ ''/'' @ ?m,
          ''dev'', Name netif] @ [''src'', IP_String net (romanaGW h)])]"
    by (rule createRoute_calls)
  have e: "ensureRouteToEndpoint net h netif sh =
      (case ?cr of (Some err', sh2) \<Rightarrow> (Some (netIfRouteCreateError err' netif), sh2)
                 | (None, sh2) \<Rightarrow> (None, sh2))"
    using q by (simp add: ensureRouteToEndpoint_def Let_def)
  show ?thesis
  proof (cases "fst ?cr")
    case None
    then show ?thesis using e c1 c2 by (cases ?cr) auto
  next
    case (Some e2)
    then obtain x where "e2 = shelloutError x ''/sbin/ip''
        ([''ro'', ''add'', IP_String net (IP netif) @ ''/'' @ ?m, ''dev'', Name netif]
           @ [''src'', IP_String net (romanaGW h)])"
      using createRoute_error by blast
    then show ?thesis using Some e c1 c2 by (cases ?cr) auto
  qed
qed

lemma ensureInterHostRoutes_after_query_error:
  assumes "otherHosts h = host # rest"
    and "ParseCIDR net (RomanaIp host) = Some (cidrIP, maskInt)"
    and "isRouteExist net h cidrIP (Sprintf_d maskInt) sh = (Some e, sh1)"
  shows "calls (snd (createRoute net h cidrIP (Sprintf_d maskInt) ''via'' (Ip host) [] sh1)) =
           calls sh @
             [(''/sbin/ip'', [''ro'', ''show'', IP_String net cidrIP @ ''/'' @ Sprintf_d maskInt]),
              (''/sbin/ip'', [''ro'', ''add'', IP_String net cidrIP @ ''/'' @ Sprintf_d maskInt,
                              ''via'', Ip host])]
         \<and> ensureInterHostRoutes net h sh =
             (case createRoute net h cidrIP (Sprintf_d maskInt) ''via'' (Ip host) [] sh1 of
                (Some err2, sh2) \<Rightarrow>
                  (Some (routeCreateError e (IP_String net cidrIP) (Sprintf_d maskInt) (Ip host)), sh2)
              | (None, sh2) \<Rightarrow> ensureInterHostRoutes net (h\<lparr>otherHosts := rest\<rparr>) sh2)"
proof -
  have c1: "calls sh1 = calls sh @
      [(''/sbin/ip'', [''ro'', ''show'', IP_String net cidrIP @ ''/'' @ Sprintf_d maskInt])]"
    using isRouteExist_calls [of net h cidrIP "Sprintf_d maskInt" sh] assms(3) by simp
  have c2: "calls (snd (createRoute net h cidrIP (Sprintf_d maskInt) ''via'' (Ip host) [] sh1)) =
      calls sh1 @ [(''/sbin/ip'', [''ro'', ''add'', IP_String net cidrIP @ ''/'' @ Sprintf_d maskInt,
                              ''via'', Ip host] @ [])]"
    by (rule createRoute_calls)
  show ?thesis
    using assms c1 c2
    by (simp add: ensureInterHostRoutes_def loop_otherHosts Let_def split: prod.splits option.splits)
qed

text \<open>
  Claim C9: any error of the existence check, a failed shell-out as well as the "no such
  route" sentinel, leads to an attempt to create the route. In \<open>ensureRouteToEndpoint\<close>
  the port then receives show and add, and the result is success or a
  \<open>netIfRouteCreateError\<close> around the error of the add. In \<open>ensureInterHostRoutes\<close> the
  first peer gets show and add, and the result is that of the rest of the loop or a
  \<open>routeCreateError\<close> (which carries the error of the check as its cause). Neither
  function ever returns an error of the check itself.
\<close>

theorem route_query_error_treated_as_absent:
  "(fst (isRouteExist net h (IP netif) (Sprintf_d (EndpointNetmaskSize h)) sh) = Some e \<longrightarrow>
      calls (snd (ensureRouteToEndpoint net h netif sh)) =
        calls sh @
          [(''/sbin/ip'', [''ro'', ''show'',
              IP_String net (IP netif) @ ''/'' @ Sprintf_d (EndpointNetmaskSize h)]),
           (''/sbin/ip'', [''ro'', ''add'',
              IP_String net (IP netif) @ ''/'' @ Sprintf_d (EndpointNetmaskSize h),
              ''dev'', Name netif, ''src'', IP_String net (romanaGW h)])]
      \<and> (fst (ensureRouteToEndpoint net h netif sh) = None
         \<or> (\<exists>x. fst (ensureRouteToEndpoint net h netif sh) =
               Some (netIfRouteCreateError
                 (shelloutError x ''/sbin/ip''
                    [''ro'', ''add'',
                     IP_String net (IP netif) @ ''/'' @ Sprintf_d (EndpointNetmaskSize h),
                     ''dev'', Name netif, ''src'', IP_String net (romanaGW h)])
                 netif))))
   \<and> (otherHosts h = host # rest \<and> ParseCIDR net (RomanaIp host) = Some (cidrIP, maskInt)
      \<and> isRouteExist net h cidrIP (Sprintf_d maskInt) sh = (Some e, sh1) \<longrightarrow>
      calls (snd (createRoute net h cidrIP (Sprintf_d maskInt) ''via'' (Ip host) [] sh1)) =
        calls sh @
          [(''/sbin/ip'', [''ro'', ''show'', IP_String net cidrIP @ ''/'' @ Sprintf_d maskInt]),
           (''/sbin/ip'', [''ro'', ''add'', IP_String net cidrIP @ ''/'' @ Sprintf_d maskInt,
                           ''via'', Ip host])]
      \<and> ensureInterHostRoutes net h sh =
          (case createRoute net h cidrIP (Sprintf_d maskInt) ''via'' (Ip host) [] sh1 of
             (Some err2, sh2) \<Rightarrow>
               (Some (routeCreateError e (IP_String net cidrIP) (Sprintf_d maskInt) (Ip host)), sh2)
           | (None, sh2) \<Rightarrow> ensureInterHostRoutes net (h\<lparr>otherHosts := rest\<rparr>) sh2))
   \<and> (fst (ensureRouteToEndpoint net h netif sh) = Some e' \<longrightarrow> \<not> is_query_error e')
   \<and> (fst (ensureInterHostRoutes net h sh) = Some e' \<longrightarrow> \<not> is_query_error e')"
  using ensureRouteToEndpoint_after_query_error [of net h netif sh e]
    ensureInterHostRoutes_after_query_error [of h host rest net cidrIP maskInt sh e sh1]
    ensureRouteToEndpoint_no_query_error [of net h netif sh e']
    loop_no_query_error [of net h "otherHosts h" sh e']
  unfolding ensureInterHostRoutes_def
  by blast

theorem route_query_error_treated_as_absent_witness:
  "fst (isRouteExist example_net (failing_helper [\<lparr>Ip = ''192.168.0.1'', RomanaIp = ''10.1.0.0/16''\<rparr>])
          [10, 0, 0, 5] ''16'' \<lparr>kernel = (), calls = []\<rparr>)
     = Some (shelloutError (execError ''exec: not found'') ''/sbin/ip'' [''ro'', ''show'', ''10.0.0.5/16''])
   \<and> ensureRouteToEndpoint example_net
        (failing_helper [\<lparr>Ip = ''192.168.0.1'', RomanaIp = ''10.1.0.0/16''\<rparr>])
        \<lparr>Name = ''veth0'', IP = [10, 0, 0, 5]\<rparr> \<lparr>kernel = (), calls = []\<rparr>
     = (Some (netIfRouteCreateError
               (shelloutError (execError ''exec: not found'') ''/sbin/ip''
                  [''ro'', ''add'', ''10.0.0.5/16'', ''dev'', ''veth0'', ''src'', ''10.0.0.1''])
               \<lparr>Name = ''veth0'', IP = [10, 0, 0, 5]\<rparr>),
        \<lparr>kernel = (),
         calls = [(''/sbin/ip'', [''ro'', ''show'', ''10.0.0.5/16'']),
                  (''/sbin/ip'', [''ro'', ''add'', ''10.0.0.5/16'', ''dev'', ''veth0'',
                                  ''src'', ''10.0.0.1''])]\<rparr>)
   \<and> ensureInterHostRoutes example_net
        (failing_helper [\<lparr>Ip = ''192.168.0.1'', RomanaIp = ''10.1.0.0/16''\<rparr>])
        \<lparr>kernel = (), calls = []\<rparr>
     = (Some (routeCreateError
               (shelloutError (execError ''exec: not found'') ''/sbin/ip''
                  [''ro'', ''show'', ''10.1.0.0/16''])
               ''10.1.0.0'' ''16'' ''192.168.0.1''),
        \<lparr>kernel = (),
         calls = [(''/sbin/ip'', [''ro'', ''show'', ''10.1.0.0/16'']),
                  (''/sbin/ip'', [''ro'', ''add'', ''10.1.0.0/16'', ''via'', ''192.168.0.1''])]\<rparr>)
   \<and> \<not> is_query_error
         (routeCreateError
            (shelloutError (execError ''exec: not found'') ''/sbin/ip'' [''ro'', ''show'', ''10.1.0.0/16''])
            ''10.1.0.0'' ''16'' ''192.168.0.1'')"
proof -
  let ?host = "\<lparr>Ip = ''192.168.0.1'', RomanaIp = ''10.1.0.0/16''\<rparr>"
  let ?h = "failing_helper [?host]"
  let ?netif = "\<lparr>Name = ''veth0'', IP = [10, 0, 0, 5]\<rparr>"
  let ?sh = "\<lparr>kernel = (), calls = []\<rparr>"
  let ?qe = "shelloutError (execError ''exec: not found'') ''/sbin/ip'' [''ro'', ''show'', ''10.0.0.5/16'']"
  let ?qh = "shelloutError (execError ''exec: not found'') ''/sbin/ip'' [''ro'', ''show'', ''10.1.0.0/16'']"
  have m: "Sprintf_d (EndpointNetmaskSize ?h) = ''16''"
    by (simp add: failing_helper_def Sprintf_d.simps)
  have q1: "fst (isRouteExist example_net ?h (IP ?netif) (Sprintf_d (EndpointNetmaskSize ?h)) ?sh) = Some ?qe"
    by (simp add: isRouteExist_def Exec_def Let_def failing_helper_def failing_exec_def
        example_net_def Sprintf_d.simps)
  have d1: "ensureRouteToEndpoint example_net ?h ?netif ?sh
     = (Some (netIfRouteCreateError
               (shelloutError (execError ''exec: not found'') ''/sbin/ip''
                  [''ro'', ''add'', ''10.0.0.5/16'', ''dev'', ''veth0'', ''src'', ''10.0.0.1''])
               ?netif),
        \<lparr>kernel = (),
         calls = [(''/sbin/ip'', [''ro'', ''show'', ''10.0.0.5/16'']),
                  (''/sbin/ip'', [''ro'', ''add'', ''10.0.0.5/16'', ''dev'', ''veth0'',
                                  ''src'', ''10.0.0.1''])]\<rparr>)"
    by (simp add: ensureRouteToEndpoint_def isRouteExist_def createRoute_def Exec_def Let_def
        failing_helper_def failing_exec_def example_net_def Sprintf_d.simps)
  have h1: "otherHosts ?h = ?host # []" by (simp add: failing_helper_def)
  have h2: "ParseCIDR example_net (RomanaIp ?host) = Some ([10, 1, 0, 0], 16)"
    by (simp add: example_net_def)
  have h3: "isRouteExist example_net ?h [10, 1, 0, 0] (Sprintf_d 16) ?sh
      = (Some ?qh, \<lparr>kernel = (), calls = [(''/sbin/ip'', [''ro'', ''show'', ''10.1.0.0/16''])]\<rparr>)"
    by (simp add: isRouteExist_def Exec_def Let_def failing_helper_def failing_exec_def
        example_net_def Sprintf_d.simps)
  have d2: "ensureInterHostRoutes example_net ?h ?sh
     = (Some (routeCreateError ?qh ''10.1.0.0'' ''16'' ''192.168.0.1''),
        \<lparr>kernel = (),
         calls = [(''/sbin/ip'', [''ro'', ''show'', ''10.1.0.0/16'']),
                  (''/sbin/ip'', [''ro'', ''add'', ''10.1.0.0/16'', ''via'', ''192.168.0.1''])]\<rparr>)"
    by (simp add: ensureInterHostRoutes_def isRouteExist_def createRoute_def Exec_def Let_def
        failing_helper_def failing_exec_def example_net_def Sprintf_d.simps)
  note inst = route_query_error_treated_as_absent
      [where net = example_net and h = ?h and netif = ?netif and sh = ?sh and e = ?qe
         and host = ?host and rest = "[]" and cidrIP = "[10, 1, 0, 0]" and maskInt = 16
         and e' = "routeCreateError ?qh ''10.1.0.0'' ''16'' ''192.168.0.1''"]
  have nq: "\<not> is_query_error (routeCreateError ?qh ''10.1.0.0'' ''16'' ''192.168.0.1'')"
    using inst q1 h1 h2 h3 d1 d2 by simp
  show ?thesis using q1 d1 d2 nq by (simp add: m)
qed

section \<open>Claims about the watch loop and the interface wait\<close>

lemma watch_loop_never_returns: "watch_loop crb ch s \<noteq> Some r"
proof
  assume "watch_loop crb ch s = Some r"
  then show False
    by (rule watch_loop.raw_induct [rotated, where P = "\<lambda>_ _ _ _. False"])
       (auto split: option.splits)
qed

lemma watch_loop_steps_closed:
  "watch_loop_steps n crb \<lparr>queued = [], closed = True\<rparr> s = (crb [] ^^ n) s"
proof (induction n arbitrary: s)
  case 0
  then show ?case by simp
next
  case (Suc n)
  then show ?case by (simp add: receive_def funpow_swap1)
qed

text \<open>
  Claim C4 says that the watch loop terminates once its channel is closed and never
  re-derives routes after that. The loop of \<open>main\<close> has no exit and does not test
  whether the receive found the channel closed: on a closed, drained channel it never
  returns, and \<open>n\<close> further iterations call \<open>createRouteToBlocks\<close> \<open>n\<close> times with the
  empty block list of the zero value. With one snapshot queued before the close, four
  iterations derive routes once from the snapshot and three times from no blocks.
\<close>

theorem watch_loop_spins_after_close:
  "watch_loop crb \<lparr>queued = [], closed = True\<rparr> s = None
   \<and> watch_loop_steps n crb \<lparr>queued = [], closed = True\<rparr> s = (crb [] ^^ n) s
   \<and> watch_loop_steps 4 (\<lambda>blocks log. log @ [blocks])
        \<lparr>queued = [\<lparr>Blocks = [''10.1.0.0/16'']\<rparr>], closed = True\<rparr> []
       = [[''10.1.0.0/16''], [], [], []]"
proof -
  have "watch_loop crb \<lparr>queued = [], closed = True\<rparr> s = None"
    using watch_loop_never_returns [of crb "\<lparr>queued = [], closed = True\<rparr>" s]
    by (cases "watch_loop crb \<lparr>queued = [], closed = True\<rparr> s") auto
  moreover have "watch_loop_steps 4 (\<lambda>blocks log. log @ [blocks])
        \<lparr>queued = [\<lparr>Blocks = [''10.1.0.0/16'']\<rparr>], closed = True\<rparr> []
       = [[''10.1.0.0/16''], [], [], []]"
    by (simp add: receive_def numeral_eq_Suc)
  ultimately show ?thesis by (simp only: watch_loop_steps_closed simp_thms)
qed

lemma waitForIface_loop_absent:
  "(\<And>n. expectedIface \<notin> set (ifaces n)) \<Longrightarrow>
   waitForIface_loop ifaces tries expectedIface i st =
     (False, st\<lparr>polls := polls st + nat (tries + 1 - i),
                 slept := slept st + 10 * nat (tries + 1 - i)\<rparr>)"
proof (induction ifaces tries expectedIface i st rule: waitForIface_loop.induct)
  case (1 ifaces tries expectedIface i st)
  show ?case
  proof (cases "i \<le> tries")
    case True
    have n: "nat (tries + 1 - i) = Suc (nat (tries + 1 - (i + 1)))" using True by simp
    show ?thesis
      using True 1
      by (subst waitForIface_loop.simps) (simp add: Let_def n del: nat_diff_distrib)
  next
    case False
    then show ?thesis by (subst waitForIface_loop.simps) simp
  qed
qed

lemma waitForIface_loop_found:
  "i \<le> tries \<Longrightarrow> expectedIface \<in> set (ifaces (polls st)) \<Longrightarrow>
   waitForIface_loop ifaces tries expectedIface i st = (True, st\<lparr>polls := polls st + 1\<rparr>)"
  by (subst waitForIface_loop.simps) (simp add: Let_def)

text \<open>
  Claim C8 says that \<open>waitForIface\<close> returns false after exactly \<open>maxTries\<close> polls. The
  loop runs while \<open>i <= waitForIfaceTry\<close> from \<open>i = 0\<close>: with \<open>waitForIfaceTry = 1\<close> and an
  interface that never appears it polls twice and sleeps 20 seconds.
\<close>

theorem waitForIface_polls_once_more:
  "waitForIface (example_helper []) (\<lambda>n. []) ''eth0'' = (False, \<lparr>polls = 2, slept = 20\<rparr>)
   \<and> waitForIfaceTry (example_helper []) = 1"
  by (simp add: waitForIface_def example_helper_def waitForIface_loop_absent)

end
